theory Spec2Isabelle
  imports Complex_Main
begin

section \<open>Floating-point values with a missing marker\<close>

text \<open>
  The Python code computes with IEEE floating-point numbers and uses NaN as the
  missing-value marker. The values are modelled as exact reals extended by the two
  infinities and one NaN: rounding, overflow and signed zeros are left out, every
  comparison with NaN is false, and NaN propagates through arithmetic.
\<close>

datatype fl = Fin real | PInf | NInf | NaN

fun isnan :: "fl \<Rightarrow> bool" where
  "isnan NaN = True"
| "isnan _ = False"

fun isfinite :: "fl \<Rightarrow> bool" where
  "isfinite (Fin _) = True"
| "isfinite _ = False"

fun fneg :: "fl \<Rightarrow> fl" where
  "fneg (Fin a) = Fin (- a)"
| "fneg PInf = NInf"
| "fneg NInf = PInf"
| "fneg NaN = NaN"

fun fadd :: "fl \<Rightarrow> fl \<Rightarrow> fl" where
  "fadd (Fin a) (Fin b) = Fin (a + b)"
| "fadd NaN _ = NaN"
| "fadd _ NaN = NaN"
| "fadd PInf NInf = NaN"
| "fadd NInf PInf = NaN"
| "fadd PInf _ = PInf"
| "fadd _ PInf = PInf"
| "fadd NInf _ = NInf"
| "fadd _ NInf = NInf"

definition fsub :: "fl \<Rightarrow> fl \<Rightarrow> fl" where
  "fsub x y = fadd x (fneg y)"

fun fmul :: "fl \<Rightarrow> fl \<Rightarrow> fl" where
  "fmul (Fin a) (Fin b) = Fin (a * b)"
| "fmul NaN _ = NaN"
| "fmul _ NaN = NaN"
| "fmul (Fin a) PInf = (if a = 0 then NaN else if 0 < a then PInf else NInf)"
| "fmul (Fin a) NInf = (if a = 0 then NaN else if 0 < a then NInf else PInf)"
| "fmul PInf (Fin b) = (if b = 0 then NaN else if 0 < b then PInf else NInf)"
| "fmul NInf (Fin b) = (if b = 0 then NaN else if 0 < b then NInf else PInf)"
| "fmul PInf PInf = PInf"
| "fmul PInf NInf = NInf"
| "fmul NInf PInf = NInf"
| "fmul NInf NInf = PInf"

text \<open>
  Division as numpy and TensorFlow do it: dividing by zero gives an infinity or NaN and
  never raises.
\<close>

fun fdiv :: "fl \<Rightarrow> fl \<Rightarrow> fl" where
  "fdiv (Fin a) (Fin b) =
     (if b \<noteq> 0 then Fin (a / b) else if a = 0 then NaN else if 0 < a then PInf else NInf)"
| "fdiv NaN _ = NaN"
| "fdiv _ NaN = NaN"
| "fdiv (Fin a) PInf = Fin 0"
| "fdiv (Fin a) NInf = Fin 0"
| "fdiv PInf (Fin b) = (if 0 \<le> b then PInf else NInf)"
| "fdiv NInf (Fin b) = (if 0 \<le> b then NInf else PInf)"
| "fdiv PInf PInf = NaN"
| "fdiv PInf NInf = NaN"
| "fdiv NInf PInf = NaN"
| "fdiv NInf NInf = NaN"

fun fsqrt :: "fl \<Rightarrow> fl" where
  "fsqrt (Fin a) = (if 0 \<le> a then Fin (sqrt a) else NaN)"
| "fsqrt PInf = PInf"
| "fsqrt NInf = NaN"
| "fsqrt NaN = NaN"

fun fatan :: "fl \<Rightarrow> fl" where
  "fatan (Fin a) = Fin (arctan a)"
| "fatan PInf = Fin (pi / 2)"
| "fatan NInf = Fin (- (pi / 2))"
| "fatan NaN = NaN"

fun fabs :: "fl \<Rightarrow> fl" where
  "fabs (Fin a) = Fin \<bar>a\<bar>"
| "fabs PInf = PInf"
| "fabs NInf = PInf"
| "fabs NaN = NaN"

fun fle :: "fl \<Rightarrow> fl \<Rightarrow> bool" where
  "fle (Fin a) (Fin b) = (a \<le> b)"
| "fle NaN _ = False"
| "fle _ NaN = False"
| "fle NInf _ = True"
| "fle _ PInf = True"
| "fle PInf _ = False"
| "fle _ NInf = False"

fun flt :: "fl \<Rightarrow> fl \<Rightarrow> bool" where
  "flt (Fin a) (Fin b) = (a < b)"
| "flt NaN _ = False"
| "flt _ NaN = False"
| "flt PInf _ = False"
| "flt _ NInf = False"
| "flt NInf _ = True"
| "flt _ PInf = True"

definition fge :: "fl \<Rightarrow> fl \<Rightarrow> bool" where
  "fge x y = fle y x"

definition fgt :: "fl \<Rightarrow> fl \<Rightarrow> bool" where
  "fgt x y = flt y x"

text \<open>\<open>np.min\<close> and \<open>np.max\<close> of two values: a NaN operand gives NaN.\<close>

definition np_min :: "fl \<Rightarrow> fl \<Rightarrow> fl" where
  "np_min x y = (if isnan x \<or> isnan y then NaN else if fle x y then x else y)"

definition np_max :: "fl \<Rightarrow> fl \<Rightarrow> fl" where
  "np_max x y = (if isnan x \<or> isnan y then NaN else if fle x y then y else x)"

section \<open>Masked statistics and RMSE (\<open>loss_functions.py\<close>)\<close>

text \<open>
  A tensor is the list of its elements; the two arguments of \<open>rmse\<close> have the same
  shape. \<open>tf.cast\<close> to float32 does nothing to an exact real.
\<close>

definition reduce_sum :: "fl list \<Rightarrow> fl" where
  "reduce_sum xs = foldr fadd xs (Fin 0)"

definition square :: "fl \<Rightarrow> fl" where
  "square x = fmul x x"

definition count_nonzero :: "bool list \<Rightarrow> nat" where
  "count_nonzero bs = length (filter (\<lambda>b. b) bs)"

definition rmse :: "fl list \<Rightarrow> fl list \<Rightarrow> fl" where
  "rmse y_true y_pred =
     (let num_y_true = count_nonzero (map (\<lambda>t. \<not> isnan t) y_true) in
      if 0 < num_y_true then
        (let zero_or_error = map (\<lambda>(t, p). if isnan t then Fin 0 else fsub p t) (zip y_true y_pred);
             sum_squared_errors = reduce_sum (map square zero_or_error)
         in fsqrt (fdiv sum_squared_errors (Fin (real num_y_true))))
      else Fin 0)"

definition mean_masked :: "fl list \<Rightarrow> fl" where
  "mean_masked y =
     (let num_vals = count_nonzero (map (\<lambda>v. \<not> isnan v) y);
          zero_or_val = map (\<lambda>v. if isnan v then Fin 0 else v) y
      in fdiv (reduce_sum zero_or_val) (Fin (real num_vals)))"

definition dev_masked :: "fl list \<Rightarrow> fl list" where
  "dev_masked y =
     (let mean = mean_masked y in map (\<lambda>v. if isnan v then Fin 0 else fsub v mean) y)"

definition std_masked :: "fl list \<Rightarrow> fl" where
  "std_masked y =
     (let dev = dev_masked y;
          num_vals = count_nonzero (map (\<lambda>v. \<not> isnan v) y);
          numerator = reduce_sum (map square dev);
          denominator = fsub (Fin (real num_vals)) (Fin 1)
      in fsqrt (fdiv numerator denominator))"

text \<open>
  The statistics the masked ones are compared with: the same quantities of a series
  without missing values, in the arithmetic of the code and, for finite values, as
  plain real numbers.
\<close>

definition nonmissing :: "fl list \<Rightarrow> fl list" where
  "nonmissing y = filter (\<lambda>v. \<not> isnan v) y"

definition plain_mean :: "fl list \<Rightarrow> fl" where
  "plain_mean xs = fdiv (reduce_sum xs) (Fin (real (length xs)))"

definition plain_std :: "fl list \<Rightarrow> fl" where
  "plain_std xs =
     fsqrt (fdiv (reduce_sum (map (\<lambda>x. square (fsub x (plain_mean xs))) xs))
                 (Fin (real (length xs) - 1)))"

definition real_mean :: "real list \<Rightarrow> real" where
  "real_mean rs = sum_list rs / real (length rs)"

definition real_std :: "real list \<Rightarrow> real" where
  "real_std rs = sqrt (sum_list (map (\<lambda>r. (r - real_mean rs)\<^sup>2) rs) / (real (length rs) - 1))"

definition valid_pairs :: "fl list \<Rightarrow> fl list \<Rightarrow> (fl \<times> fl) list" where
  "valid_pairs y_true y_pred = filter (\<lambda>(t, p). \<not> isnan t) (zip y_true y_pred)"

definition masked_rms_error :: "fl list \<Rightarrow> fl list \<Rightarrow> fl" where
  "masked_rms_error y_true y_pred =
     (let vp = valid_pairs y_true y_pred
      in fsqrt (fdiv (reduce_sum (map (\<lambda>(t, p). square (fsub p t)) vp)) (Fin (real (length vp)))))"

section \<open>Harmonic signal estimator (\<open>gw_utils.py\<close>)\<close>

text \<open>
  A date is the number of days since 1970-01-01, as \<open>numpy.datetime64\<close> counts them;
  the reference date 1980-10-01 is day 3926.
\<close>

definition ref_date :: real where
  "ref_date = 3926"

definition make_decimal_date :: "real list \<Rightarrow> real list" where
  "make_decimal_date date = map (\<lambda>d. (d - ref_date) / 365) date"

text \<open>
  The regression itself is the work of the statsmodels library
  (\<open>sm.OLS(temp, sm.add_constant(x), missing='drop').fit()\<close> and \<open>conf_int()\<close>), so it is
  a parameter of the model: a function from the temperatures and the rows
  \<open>[sin, cos]\<close> to the three fitted coefficients and their three confidence intervals,
  or to \<open>None\<close> when anything inside the \<open>try\<close> block raises. What follows the fit
  inside the block cannot raise: \<open>math.sqrt\<close> rejects only a negative argument and is
  given a sum of two squares, and the divisions are numpy's. The construction of the
  design matrix before the block is taken to succeed.
\<close>

record ols_results =
  params :: "fl \<times> fl \<times> fl"
  conf_int :: "(fl \<times> fl) \<times> (fl \<times> fl) \<times> (fl \<times> fl)"

type_synonym ols_fit = "fl list \<Rightarrow> (real \<times> real) list \<Rightarrow> ols_results option"

text \<open>The six values \<open>amp_phi\<close> returns.\<close>

record harmonic_fit =
  amp :: fl
  phi :: fl
  amp_low :: fl
  amp_high :: fl
  phi_low :: fl
  phi_high :: fl

text \<open>\<open>confInt[k][j]\<close> for a row \<open>confInt[k]\<close> and \<open>j\<close> in \<open>range(2)\<close>.\<close>

definition ci_at :: "fl \<times> fl \<Rightarrow> nat \<Rightarrow> fl" where
  "ci_at row j = (if j = 0 then fst row else snd row)"

fun np_min_list :: "fl list \<Rightarrow> fl" where
  "np_min_list [] = NaN"
| "np_min_list (v # vs) = foldl np_min v vs"

fun np_max_list :: "fl list \<Rightarrow> fl" where
  "np_max_list [] = NaN"
| "np_max_list (v # vs) = foldl np_max v vs"

definition amp_phi :: "ols_fit \<Rightarrow> real list \<Rightarrow> fl list \<Rightarrow> bool \<Rightarrow> harmonic_fit" where
  "amp_phi ols Date temp isWater =
     (let date_decimal = make_decimal_date Date;
          temp1 = (if isWater
                   then map (\<lambda>x. if fge x (Fin 1) \<and> fle x (Fin 45) then x else NaN) temp
                   else temp);
          x = map (\<lambda>j. (sin (2 * pi * j), cos (2 * pi * j))) date_decimal
      in case ols temp1 x of
           None \<Rightarrow>
             \<lparr>amp = NaN, phi = NaN, amp_low = NaN, amp_high = NaN, phi_low = NaN, phi_high = NaN\<rparr>
         | Some results \<Rightarrow>
             (case params results of (p0, p1, p2) \<Rightarrow>
              case conf_int results of (confInt0, confInt1, confInt2) \<Rightarrow>
                (let phiRange =
                       concat (map (\<lambda>x. map (\<lambda>y.
                         fsub (Fin (3 * pi / 2)) (fatan (fdiv (ci_at confInt2 x) (ci_at confInt1 y))))
                         [0, 1]) [0, 1])
                 in \<lparr>amp = fsqrt (fadd (square p1) (square p2)),
                      phi = fsub (Fin (3 * pi / 2)) (fatan (fdiv p2 p1)),
                      amp_low = fsqrt (fadd
                        (square (np_min (fabs (fst confInt1)) (fabs (snd confInt1))))
                        (square (np_min (fabs (fst confInt2)) (fabs (snd confInt2))))),
                      amp_high = fsqrt (fadd
                        (square (np_max (fabs (fst confInt1)) (fabs (snd confInt1))))
                        (square (np_max (fabs (fst confInt2)) (fabs (snd confInt2))))),
                      phi_low = np_min_list phiRange,
                      phi_high = np_max_list phiRange\<rparr>)))"

section \<open>Signal table builder (\<open>annual_temp_stats\<close>)\<close>

datatype py_error = ZeroDivisionError | IndexError

text \<open>Division of two Python floats: a zero divisor raises, whatever the dividend.\<close>

definition py_div :: "fl \<Rightarrow> fl \<Rightarrow> py_error + fl" where
  "py_div x y = (if y = Fin 0 then Inl ZeroDivisionError else Inr (fdiv x y))"

fun sequence_err :: "(py_error + 'a) list \<Rightarrow> py_error + 'a list" where
  "sequence_err [] = Inr []"
| "sequence_err (r # rs) =
     (case r of
        Inl e \<Rightarrow> Inl e
      | Inr v \<Rightarrow> (case sequence_err rs of Inl e \<Rightarrow> Inl e | Inr vs \<Rightarrow> Inr (v # vs)))"

definition then_err :: "py_error + 'a \<Rightarrow> ('a \<Rightarrow> py_error + 'b) \<Rightarrow> py_error + 'b" where
  "then_err r f = (case r of Inl e \<Rightarrow> Inl e | Inr v \<Rightarrow> f v)"

text \<open>One segment of the dataset: its id and its three temperature series over \<open>date\<close>.\<close>

record segment =
  seg :: int
  tave_air :: "fl list"
  tave_water_pbm :: "fl list"
  tave_water_obs :: "fl list"

record dataset =
  date :: "real list"
  segments :: "segment list"

text \<open>
  The observed-water branch of the loop body (lines 127 to 171): the fit is made only
  when more than 365 values are finite and at least 365 of them lie between 1 and 60.
\<close>

definition all_missing :: harmonic_fit where
  "all_missing =
     \<lparr>amp = NaN, phi = NaN, amp_low = NaN, amp_high = NaN, phi_low = NaN, phi_high = NaN\<rparr>"

definition water_obs_fit :: "ols_fit \<Rightarrow> real list \<Rightarrow> fl list \<Rightarrow> harmonic_fit" where
  "water_obs_fit ols dates obs =
     (if 365 < count_nonzero (map isfinite obs) then
        (let waterDF = zip dates obs;
             waterDF1 = map (\<lambda>(d, t). (d, if flt t (Fin 1) \<or> fgt t (Fin 60) then NaN else t)) waterDF;
             waterDF2 = filter (\<lambda>(d, t). \<not> isnan t) waterDF1
         in if length waterDF2 < 365 then all_missing
            else if 365 \<le> length waterDF2
                 then amp_phi ols (map fst waterDF2) (map snd waterDF2) True
                 else all_missing)
      else all_missing)"

text \<open>The table that is returned, one list per column.\<close>

record tempDF =
  seg_id_nat :: "int list"
  air_amp :: "fl list"
  air_phi :: "fl list"
  water_amp_obs :: "fl list"
  water_phi_obs :: "fl list"
  Ar_obs :: "fl list"
  delPhi_obs :: "fl list"
  Ar_low_obs :: "fl list"
  Ar_high_obs :: "fl list"
  delPhi_low_obs :: "fl list"
  delPhi_high_obs :: "fl list"
  water_amp_pbm :: "fl list"
  water_phi_pbm :: "fl list"
  Ar_pbm :: "fl list"
  delPhi_pbm :: "fl list"

text \<open>\<open>[ws[x]/as[x] for x in range(len(ws))]\<close> and the phase difference in days.\<close>

definition ratio_list :: "fl list \<Rightarrow> fl list \<Rightarrow> py_error + fl list" where
  "ratio_list ws as = sequence_err (map (\<lambda>x. py_div (ws ! x) (as ! x)) [0..<length ws])"

definition days_list :: "fl list \<Rightarrow> fl list \<Rightarrow> fl list" where
  "days_list ws as =
     map (\<lambda>x. fdiv (fmul (fsub (ws ! x) (as ! x)) (Fin 365)) (Fin (2 * pi))) [0..<length ws]"

text \<open>
  The plausibility rules, lines 197 to 209, list by list as the code has them: each of
  the three steps reads the lists the step before it has written.
\<close>

definition remove_Ar_above :: "fl list \<times> fl list \<Rightarrow> fl list \<times> fl list" where
  "remove_Ar_above r =
     (case r of (Ar0, delPhi0) \<Rightarrow>
        (let delPhi1 = map (\<lambda>i. if fle (Ar0 ! i) (Fin 1.1) then delPhi0 ! i else NaN) [0..<length delPhi0];
             Ar1 = map (\<lambda>x. if fle x (Fin 1.1) then x else NaN) Ar0
         in (Ar1, delPhi1)))"

definition remove_delPhi_below :: "fl list \<times> fl list \<Rightarrow> fl list \<times> fl list" where
  "remove_delPhi_below r =
     (case r of (Ar1, delPhi1) \<Rightarrow>
        (let Ar2 = map (\<lambda>i. if fge (delPhi1 ! i) (Fin (- 10)) then Ar1 ! i else NaN) [0..<length Ar1];
             delPhi2 = map (\<lambda>x. if fge x (Fin (- 10)) then x else NaN) delPhi1
         in (Ar2, delPhi2)))"

definition reset_delPhi :: "fl list \<times> fl list \<Rightarrow> fl list \<times> fl list" where
  "reset_delPhi r =
     (case r of (Ar2, delPhi2) \<Rightarrow>
        (Ar2, map (\<lambda>x. if fgt x (Fin 0) then x else if isfinite x then Fin 0 else NaN) delPhi2))"

definition plausibility_filter :: "fl list \<Rightarrow> fl list \<Rightarrow> fl list \<times> fl list" where
  "plausibility_filter Ar0 delPhi0 =
     reset_delPhi (remove_delPhi_below (remove_Ar_above (Ar0, delPhi0)))"

definition annual_temp_stats :: "ols_fit \<Rightarrow> dataset \<Rightarrow> py_error + tempDF" where
  "annual_temp_stats ols thisData =
     (let airs = map (\<lambda>s. amp_phi ols (date thisData) (tave_air s) False) (segments thisData);
          pbms = map (\<lambda>s. amp_phi ols (date thisData) (tave_water_pbm s) True) (segments thisData);
          obss = map (\<lambda>s. water_obs_fit ols (date thisData) (tave_water_obs s)) (segments thisData)
      in then_err (ratio_list (map amp obss) (map amp airs)) (\<lambda>Ar0.
         let delPhi0 = days_list (map phi obss) (map phi airs) in
         then_err (ratio_list (map amp_low obss) (map amp_high airs)) (\<lambda>Ar_low.
         then_err (ratio_list (map amp_high obss) (map amp_low airs)) (\<lambda>Ar_high.
         let delPhi_low = days_list (map phi_low obss) (map phi_high airs);
             delPhi_high = days_list (map phi_high obss) (map phi_low airs);
             filtered = plausibility_filter Ar0 delPhi0
         in
         then_err (ratio_list (map amp pbms) (map amp airs)) (\<lambda>Ar_p.
         Inr \<lparr>seg_id_nat = map seg (segments thisData),
              air_amp = map amp airs,
              air_phi = map phi airs,
              water_amp_obs = map amp obss,
              water_phi_obs = map phi obss,
              Ar_obs = fst filtered,
              delPhi_obs = snd filtered,
              Ar_low_obs = Ar_low,
              Ar_high_obs = Ar_high,
              delPhi_low_obs = delPhi_low,
              delPhi_high_obs = delPhi_high,
              water_amp_pbm = map amp pbms,
              water_phi_pbm = map phi pbms,
              Ar_pbm = Ar_p,
              delPhi_pbm = days_list (map phi pbms) (map phi airs)\<rparr>)))))"

text \<open>The three rules in the words of the specification, on one segment's pair.\<close>

definition rule_i :: "fl \<times> fl \<Rightarrow> fl \<times> fl" where
  "rule_i r = (if fgt (fst r) (Fin 1.1) then (NaN, NaN) else r)"

definition rule_ii :: "fl \<times> fl \<Rightarrow> fl \<times> fl" where
  "rule_ii r = (if flt (snd r) (Fin (- 10)) then (NaN, NaN) else r)"

definition rule_iii :: "fl \<times> fl \<Rightarrow> fl \<times> fl" where
  "rule_iii r = (if fle (Fin (- 10)) (snd r) \<and> fle (snd r) (Fin 0) then (fst r, Fin 0) else r)"

text \<open>
  What is assumed of the regression where a positive amplitude is claimed: in exact
  arithmetic a least-squares coefficient is never infinite.
\<close>

definition finite_coefficients :: "ols_fit \<Rightarrow> bool" where
  "finite_coefficients ols \<longleftrightarrow>
     (\<forall>temp x r. ols temp x = Some r \<longrightarrow>
        (case params r of (p0, p1, p2) \<Rightarrow> p1 \<noteq> PInf \<and> p1 \<noteq> NInf \<and> p2 \<noteq> PInf \<and> p2 \<noteq> NInf))"

text \<open>
  The samples of an observed-water series that are present and lie between 1 and 60
  degrees, with their dates.
\<close>

definition plausible_samples :: "real list \<Rightarrow> fl list \<Rightarrow> (real \<times> fl) list" where
  "plausible_samples dates obs = filter (\<lambda>(d, t). fle (Fin 1) t \<and> fle t (Fin 60)) (zip dates obs)"

section \<open>Batched regression and composite loss (\<open>loss_functions.py\<close>)\<close>

text \<open>
  A tensor of shape \<open>[segments, timesteps, channels]\<close> is a list of lists of lists. A
  slice with a range keeps what is in range, as in Python; an index that is out of
  range raises. The \<open>print\<close> calls of the source have no part in the result.
\<close>

type_synonym tensor3 = "fl list list list"

definition item :: "'a list \<Rightarrow> nat \<Rightarrow> py_error + 'a" where
  "item xs k = (if k < length xs then Inr (xs ! k) else Inl IndexError)"

text \<open>\<open>t[:, :, k]\<close> and \<open>t[:, j, k]\<close>.\<close>

definition channel :: "tensor3 \<Rightarrow> nat \<Rightarrow> py_error + fl list list" where
  "channel t k = sequence_err (map (\<lambda>rows. sequence_err (map (\<lambda>row. item row k) rows)) t)"

definition index2 :: "tensor3 \<Rightarrow> nat \<Rightarrow> nat \<Rightarrow> py_error + fl list" where
  "index2 t j k = sequence_err (map (\<lambda>rows. then_err (item rows j) (\<lambda>row. item row k)) t)"



text \<open>
  Matrices are lists of rows. Both \<open>einsum\<close> calls of the source are matrix products,
  the second one with its first factor transposed.
\<close>

definition dot :: "fl list \<Rightarrow> fl list \<Rightarrow> fl" where
  "dot u v = reduce_sum (map2 fmul u v)"

definition matmul :: "fl list list \<Rightarrow> fl list list \<Rightarrow> fl list list" where
  "matmul A B = map (\<lambda>row. map (dot row) (transpose B)) A"

text \<open>
  The regression of lines 229 to 248 for every segment of the batch: the amplitude
  \<open>Aw\<close> and the phase \<open>Phiw\<close> of the predicted temperatures. \<open>tf.linalg.pinv\<close> is a
  parameter.
\<close>

definition GW_amp_phase ::
    "(fl list list \<Rightarrow> fl list list) \<Rightarrow> tensor3 \<Rightarrow> tensor3 \<Rightarrow> py_error + (fl list \<times> fl list)" where
  "GW_amp_phase pinv x_lm y_pred_temp =
     then_err (channel x_lm 0) (\<lambda>sin_wt.
     then_err (channel x_lm 1) (\<lambda>cos_wt.
     let X_mat = map2 (\<lambda>s c. [map (\<lambda>v. Fin 1) s, s, c]) sin_wt cos_wt;
         X_mat_T = map transpose X_mat;
         X_mat_T_dot = map2 matmul X_mat_T X_mat;
         X_mat_inv = map pinv X_mat_T_dot;
         X_mat_inv_dot = map2 matmul X_mat_inv X_mat_T;
         a_b = map2 (\<lambda>A Y. matmul (transpose A) Y) X_mat_inv_dot y_pred_temp
     in then_err (index2 a_b 1 0) (\<lambda>a.
        then_err (index2 a_b 2 0) (\<lambda>b.
        Inr (map2 (\<lambda>u v. fsqrt (fadd (square u) (square v))) a b,
             map2 (\<lambda>u v. fsub (Fin (3 * pi / 2)) (fatan (fdiv v u))) a b)))))"



section \<open>What the regression library is taken to compute\<close>

text \<open>
  Ordinary least squares with \<open>missing='drop'\<close>: the rows whose temperature is present are
  used, and the coefficients returned minimise the sum of the squared residuals of
  \<open>c + a sin + b cos\<close> over them. The design has full rank when no non-trivial
  combination of the three columns vanishes on every row used.
\<close>

definition fitted_rows :: "fl list \<Rightarrow> (real \<times> real) list \<Rightarrow> (real \<times> real \<times> real) list" where
  "fitted_rows temp x =
     concat (map (\<lambda>(t, sc). case t of Fin v \<Rightarrow> [(v, fst sc, snd sc)] | _ \<Rightarrow> []) (zip temp x))"

definition rss :: "real \<Rightarrow> real \<Rightarrow> real \<Rightarrow> (real \<times> real \<times> real) list \<Rightarrow> real" where
  "rss c a b rows = sum_list (map (\<lambda>(v, s, k). (v - (c + a * s + b * k))\<^sup>2) rows)"

definition least_squares :: "ols_results \<Rightarrow> fl list \<Rightarrow> (real \<times> real) list \<Rightarrow> bool" where
  "least_squares r temp x \<longleftrightarrow>
     (\<exists>c a b. params r = (Fin c, Fin a, Fin b) \<and>
        (\<forall>c' a' b'. rss c a b (fitted_rows temp x) \<le> rss c' a' b' (fitted_rows temp x)))"

definition full_rank :: "(real \<times> real \<times> real) list \<Rightarrow> bool" where
  "full_rank rows \<longleftrightarrow>
     (\<forall>u v w. (\<forall>(y, s, k) \<in> set rows. u + v * s + w * k = 0) \<longrightarrow> u = 0 \<and> v = 0 \<and> w = 0)"

text \<open>
  The pseudo-inverse is applied to the matrix \<open>gram\<close> of the design rows
  \<open>[1, sin, cos]\<close>. Of \<open>tf.linalg.pinv\<close> only the first Moore-Penrose condition is used:
  \<open>G P G = G\<close>, written out by entries.
\<close>

definition gram :: "(real \<times> real) list \<Rightarrow> real list list" where
  "gram x = map (\<lambda>(si, ki). map (\<lambda>(sl, kl). 1 + si * sl + ki * kl) x) x"

definition generalised_inverse :: "real list list \<Rightarrow> real list list \<Rightarrow> bool" where
  "generalised_inverse P G \<longleftrightarrow>
     length P = length G \<and> (\<forall>row \<in> set P. length row = length G) \<and>
     (\<forall>i<length G. \<forall>m<length G.
        (\<Sum>l<length G. \<Sum>q<length G. G ! i ! l * P ! l ! q * G ! q ! m) = G ! i ! m)"

text \<open>Products of real matrices and the form \<open>f\<^sup>T P h\<close>, used in the proofs.\<close>

definition rdot :: "real list \<Rightarrow> real list \<Rightarrow> real" where
  "rdot u v = sum_list (map2 (*) u v)"

definition rmatmul :: "real list list \<Rightarrow> real list list \<Rightarrow> real list list" where
  "rmatmul A B = map (\<lambda>row. map (rdot row) (transpose B)) A"

definition bil :: "nat \<Rightarrow> (nat \<Rightarrow> nat \<Rightarrow> real) \<Rightarrow> (nat \<Rightarrow> real) \<Rightarrow> (nat \<Rightarrow> real) \<Rightarrow> real" where
  "bil T P f h = (\<Sum>l<T. \<Sum>q<T. f l * P l q * h q)"

text \<open>The synthetic series \<open>T(t) = c + a sin(2 pi t) + b cos(2 pi t)\<close> on given dates.\<close>

definition sinusoid :: "real \<Rightarrow> real \<Rightarrow> real \<Rightarrow> real list \<Rightarrow> fl list" where
  "sinusoid c a b Date =
     map (\<lambda>j. Fin (c + a * sin (2 * pi * j) + b * cos (2 * pi * j))) (make_decimal_date Date)"

section \<open>Example inputs\<close>

text \<open>
  A regression outcome for a series that is exactly \<open>10 + sin(2 pi t)\<close>: coefficients
  \<open>(10, 1, 0)\<close> with confidence intervals of width zero.
\<close>

definition steady_fit :: ols_fit where
  "steady_fit temp x =
     Some \<lparr>params = (Fin 10, Fin 1, Fin 0),
           conf_int = ((Fin 10, Fin 10), (Fin 1, Fin 1), (Fin 0, Fin 0))\<rparr>"

text \<open>
  A regression that returns the coefficients \<open>(0, 0, 0)\<close> for a series of zeros, as least
  squares does, and fails on every other series.
\<close>

definition zero_fit :: ols_fit where
  "zero_fit temp x =
     (if temp \<noteq> [] \<and> list_all (\<lambda>t. t = Fin 0) temp
      then Some \<lparr>params = (Fin 0, Fin 0, Fin 0),
                 conf_int = ((Fin 0, Fin 0), (Fin 0, Fin 0), (Fin 0, Fin 0))\<rparr>
      else None)"

text \<open>
  The regression outcome for the series \<open>5 + 3 sin + 4 cos\<close>, and dates a quarter of a
  year apart.
\<close>

definition sinusoid_fit :: ols_fit where
  "sinusoid_fit temp x =
     Some \<lparr>params = (Fin 5, Fin 3, Fin 4),
           conf_int = ((Fin 5, Fin 5), (Fin 3, Fin 3), (Fin 4, Fin 4))\<rparr>"

definition quarter_dates :: "real list" where
  "quarter_dates = [ref_date, ref_date + 365 / 4, ref_date + 365 / 2]"

text \<open>
  A batch of one segment on the three dates: the pseudo-inverse of its matrix
  \<open>[[2, 1, 0], [1, 2, 1], [0, 1, 2]]\<close>, its target tensor with the channels
  \<open>[main, aux, Ar_obs, delPhi_obs, air_phi, air_amp, sin, cos, weight, weight]\<close>, and
  predictions that are exactly \<open>5 + 3 sin + 4 cos\<close>.
\<close>

definition quarter_pinv :: "fl list list \<Rightarrow> fl list list" where
  "quarter_pinv G =
     [[Fin (3 / 4), Fin (- (1 / 2)), Fin (1 / 4)],
      [Fin (- (1 / 2)), Fin 1, Fin (- (1 / 2))],
      [Fin (1 / 4), Fin (- (1 / 2)), Fin (3 / 4)]]"



text \<open>Daily dates from the reference date on, and a water series of ten degrees.\<close>

definition days_from_ref :: "nat \<Rightarrow> real list" where
  "days_from_ref n = map (\<lambda>k. ref_date + real k) [0..<n]"

definition year_and_a_day :: dataset where
  "year_and_a_day =
     \<lparr>date = days_from_ref 366,
      segments =
        [\<lparr>seg = 1, tave_air = replicate 366 (Fin 12),
          tave_water_pbm = replicate 366 (Fin 10), tave_water_obs = replicate 366 (Fin 10)\<rparr>,
         \<lparr>seg = 2, tave_air = replicate 366 (Fin 12),
          tave_water_pbm = replicate 366 (Fin 10), tave_water_obs = replicate 366 NaN\<rparr>]\<rparr>"

definition still_air :: dataset where
  "still_air =
     \<lparr>date = days_from_ref 5,
      segments =
        [\<lparr>seg = 1, tave_air = [Fin 0, Fin 0, Fin 0, Fin 0, Fin 0],
          tave_water_pbm = [Fin 0, Fin 0, Fin 0, Fin 0, Fin 0],
          tave_water_obs = [NaN, NaN, NaN, NaN, NaN]\<rparr>]\<rparr>"

text \<open>
  Regression results with intercept \<open>0\<close> and the coefficients \<open>r cos t\<close> of sine and
  \<open>r sin t\<close> of cosine, each confidence interval being the coefficient itself: the fit
  of amplitude \<open>r\<close> and phase \<open>3 pi / 2 - t\<close>.
\<close>

definition turned :: "real \<Rightarrow> real \<Rightarrow> ols_results" where
  "turned r t =
     \<lparr>params = (Fin 0, Fin (r * cos t), Fin (r * sin t)),
      conf_int = ((Fin 0, Fin 0), (Fin (r * cos t), Fin (r * cos t)), (Fin (r * sin t), Fin (r * sin t)))\<rparr>"

text \<open>
  A stand-in for the regression that tells the series apart by their first value, and
  three segments under one air series: the first gets an amplitude ratio of \<open>1.2\<close> and a
  phase shift of \<open>5\<close> days, the second \<open>0.6\<close> and \<open>-3\<close> days, the third \<open>0.6\<close> and
  \<open>-365 / 8\<close> days.
\<close>

definition marked_fit :: ols_fit where
  "marked_fit temp x =
     (if temp = [] then None
      else if hd temp = Fin 12 then Some (turned 1 0)
      else if hd temp = Fin 10 then Some (turned 1.2 (- (10 * pi / 365)))
      else if hd temp = Fin 11 then Some (turned 0.6 (6 * pi / 365))
      else if hd temp = Fin 9 then Some (turned 0.6 (pi / 4))
      else None)"

definition three_reaches :: dataset where
  "three_reaches =
     \<lparr>date = days_from_ref 366,
      segments =
        [\<lparr>seg = 1, tave_air = replicate 366 (Fin 12),
          tave_water_pbm = replicate 366 (Fin 10), tave_water_obs = replicate 366 (Fin 10)\<rparr>,
         \<lparr>seg = 2, tave_air = replicate 366 (Fin 12),
          tave_water_pbm = replicate 366 (Fin 10), tave_water_obs = replicate 366 (Fin 11)\<rparr>,
         \<lparr>seg = 3, tave_air = replicate 366 (Fin 12),
          tave_water_pbm = replicate 366 (Fin 10), tave_water_obs = replicate 366 (Fin 9)\<rparr>]\<rparr>"

section \<open>Properties of the masked statistics\<close>

lemma fadd_zero_left: "fadd (Fin 0) x = x"
  by (cases x) simp_all

lemma fsub_Fin: "fsub (Fin a) (Fin b) = Fin (a - b)"
  by (simp add: fsub_def)

lemma square_zero: "square (Fin 0) = Fin 0"
  by (simp add: square_def)

lemma count_nonmissing: "count_nonzero (map (\<lambda>v. \<not> isnan v) y) = length (nonmissing y)"
  by (induction y) (simp_all add: count_nonzero_def nonmissing_def)

lemma reduce_sum_Cons: "reduce_sum (x # xs) = fadd x (reduce_sum xs)"
  by (simp add: reduce_sum_def)

lemma reduce_sum_Nil: "reduce_sum [] = Fin 0"
  by (simp add: reduce_sum_def)

lemma reduce_sum_zero_filled:
  "reduce_sum (map (\<lambda>v. if isnan v then Fin 0 else v) y) = reduce_sum (nonmissing y)"
  by (induction y) (simp_all add: reduce_sum_Cons nonmissing_def fadd_zero_left)

lemma reduce_sum_sq_dev:
  "reduce_sum (map square (map (\<lambda>v. if isnan v then Fin 0 else fsub v m) y))
     = reduce_sum (map (\<lambda>x. square (fsub x m)) (nonmissing y))"
  by (induction y) (simp_all add: reduce_sum_Cons nonmissing_def fadd_zero_left square_zero)

lemma mean_masked_plain: "mean_masked y = plain_mean (nonmissing y)"
  by (simp add: mean_masked_def plain_mean_def count_nonmissing reduce_sum_zero_filled)

lemma std_masked_plain: "std_masked y = plain_std (nonmissing y)"
  by (simp add: std_masked_def plain_std_def dev_masked_def count_nonmissing reduce_sum_sq_dev
      mean_masked_plain fsub_Fin del: map_map)

lemma reduce_sum_Fin: "reduce_sum (map Fin rs) = Fin (sum_list rs)"
  by (induction rs) (simp_all add: reduce_sum_Cons reduce_sum_Nil)

lemma plain_mean_Fin: "rs \<noteq> [] \<Longrightarrow> plain_mean (map Fin rs) = Fin (real_mean rs)"
  by (simp add: plain_mean_def real_mean_def reduce_sum_Fin)

lemma sq_dev_Fin: "map (\<lambda>x. square (fsub x (Fin m))) (map Fin rs) = map Fin (map (\<lambda>r. (r - m)\<^sup>2) rs)"
  by (simp add: square_def fsub_Fin power2_eq_square)

lemma sum_sq_nonneg: "0 \<le> sum_list (map (\<lambda>r. (r - m)\<^sup>2) rs)" for m :: real
  by (induction rs) simp_all

lemma plain_std_Fin:
  assumes "2 \<le> length rs"
  shows "plain_std (map Fin rs) = Fin (real_std rs)"
proof -
  from assms have ne: "rs \<noteq> []" by auto
  from assms have pos: "0 < real (length rs) - 1" by simp
  have "0 \<le> sum_list (map (\<lambda>r. (r - real_mean rs)\<^sup>2) rs) / (real (length rs) - 1)"
    using sum_sq_nonneg pos by (simp add: divide_nonneg_pos)
  then show ?thesis
    using pos by (simp add: plain_std_def plain_mean_Fin [OF ne] sq_dev_Fin reduce_sum_Fin real_std_def
        del: map_map)
qed

lemma valid_count: "length y_pred = length y_true \<Longrightarrow>
   length (valid_pairs y_true y_pred) = length (nonmissing y_true)"
  by (induction y_true y_pred rule: list_induct2') (simp_all add: valid_pairs_def nonmissing_def)

lemma reduce_sum_sq_err:
  "reduce_sum (map square (map (\<lambda>(t, p). if isnan t then Fin 0 else fsub p t) zs))
     = reduce_sum (map (\<lambda>(t, p). square (fsub p t)) (filter (\<lambda>(t, p). \<not> isnan t) zs))"
  by (induction zs) (auto simp add: reduce_sum_Cons fadd_zero_left square_zero)

lemma nonmissing_empty: "nonmissing y = [] \<longleftrightarrow> (\<forall>t \<in> set y. isnan t)"
  by (induction y) (simp_all add: nonmissing_def)

lemma rmse_all_missing: "(\<forall>t \<in> set y_true. isnan t) \<Longrightarrow> rmse y_true y_pred = Fin 0"
  using nonmissing_empty [of y_true] by (simp add: rmse_def count_nonmissing)

lemma rmse_some_valid: "length y_pred = length y_true \<Longrightarrow> \<not> (\<forall>t \<in> set y_true. isnan t) \<Longrightarrow>
   rmse y_true y_pred = masked_rms_error y_true y_pred"
  using nonmissing_empty [of y_true]
  by (simp add: rmse_def count_nonmissing masked_rms_error_def valid_count reduce_sum_sq_err Let_def del: map_map)
    (simp add: valid_pairs_def)


lemma sq_err_Fin:
  "map (\<lambda>(t, p). square (fsub p t)) (map (\<lambda>(t, p). (Fin t, Fin p)) rs)
     = map Fin (map (\<lambda>(t, p). (p - t)\<^sup>2) rs)"
  by (induction rs) (auto simp add: square_def fsub_Fin power2_eq_square)

lemma sum_sq_err_nonneg: "0 \<le> sum_list (map (\<lambda>(t, p). (p - t)\<^sup>2) rs)" for rs :: "(real \<times> real) list"
  by (induction rs) auto

lemma masked_rms_error_Fin:
  assumes "valid_pairs y_true y_pred = map (\<lambda>(t, p). (Fin t, Fin p)) rs" and "rs \<noteq> []"
  shows "masked_rms_error y_true y_pred
           = Fin (sqrt (sum_list (map (\<lambda>(t, p). (p - t)\<^sup>2) rs) / real (length rs)))"
proof -
  have "0 \<le> sum_list (map (\<lambda>(t, p). (p - t)\<^sup>2) rs) / real (length rs)"
    using sum_sq_err_nonneg [of rs] by simp
  then show ?thesis
    using assms(2) by (simp add: masked_rms_error_def assms(1) sq_err_Fin reduce_sum_Fin del: map_map)
qed

text \<open>
  Claim C6. When every position of \<open>y_true\<close> holds the missing marker, \<open>rmse\<close> returns
  exactly 0, whatever \<open>y_pred\<close> is. Otherwise, for two tensors of the same shape, it
  returns the root of the mean squared error over the positions where \<open>y_true\<close> is not
  missing; when the values at those positions are finite this is the real number
  \<open>sqrt (sum (p - t)^2 / n)\<close>.
\<close>

theorem rmse_masked:
  "((\<forall>t \<in> set y_true. isnan t) \<longrightarrow> rmse y_true y_pred = Fin 0)
   \<and> (length y_pred = length y_true \<and> \<not> (\<forall>t \<in> set y_true. isnan t) \<longrightarrow>
        rmse y_true y_pred = masked_rms_error y_true y_pred)
   \<and> (length y_pred = length y_true \<and> rs \<noteq> [] \<and>
        valid_pairs y_true y_pred = map (\<lambda>(t, p). (Fin t, Fin p)) rs \<longrightarrow>
        rmse y_true y_pred = Fin (sqrt (sum_list (map (\<lambda>(t, p). (p - t)\<^sup>2) rs) / real (length rs))))"
proof (intro conjI impI)
  assume "\<forall>t \<in> set y_true. isnan t"
  then show "rmse y_true y_pred = Fin 0" by (rule rmse_all_missing)
next
  assume "length y_pred = length y_true \<and> \<not> (\<forall>t \<in> set y_true. isnan t)"
  then show "rmse y_true y_pred = masked_rms_error y_true y_pred"
    by (simp add: rmse_some_valid)
next
  assume a: "length y_pred = length y_true \<and> rs \<noteq> [] \<and>
        valid_pairs y_true y_pred = map (\<lambda>(t, p). (Fin t, Fin p)) rs"
  then have "length (nonmissing y_true) = length rs"
    using valid_count [of y_pred y_true] by simp
  with a have "nonmissing y_true \<noteq> []" by auto
  then have "\<not> (\<forall>t \<in> set y_true. isnan t)" by (simp add: nonmissing_empty)
  with a show "rmse y_true y_pred = Fin (sqrt (sum_list (map (\<lambda>(t, p). (p - t)\<^sup>2) rs) / real (length rs)))"
    by (simp add: rmse_some_valid masked_rms_error_Fin)
qed

theorem rmse_masked_witness:
  "rmse [NaN, NaN] [Fin 1, Fin 2] = Fin 0
   \<and> rmse [Fin 1, NaN, Fin 3] [Fin 4, Fin 7, Fin 7] = masked_rms_error [Fin 1, NaN, Fin 3] [Fin 4, Fin 7, Fin 7]
   \<and> rmse [Fin 1, NaN, Fin 3] [Fin 4, Fin 7, Fin 7] = Fin (sqrt (25 / 2))"
proof -
  have a: "\<forall>t \<in> set [NaN, NaN]. isnan t" by simp
  have b: "length [Fin 4, Fin 7, Fin 7] = length [Fin 1, NaN, Fin 3]
           \<and> \<not> (\<forall>t \<in> set [Fin 1, NaN, Fin 3]. isnan t)" by simp
  have c: "length [Fin 4, Fin 7, Fin 7] = length [Fin 1, NaN, Fin 3] \<and> [(1, 4), (3, 7)] \<noteq> []
           \<and> valid_pairs [Fin 1, NaN, Fin 3] [Fin 4, Fin 7, Fin 7]
               = map (\<lambda>(t, p). (Fin t, Fin p)) [(1, 4), (3, 7)]"
    by (simp add: valid_pairs_def)
  have d: "sum_list (map (\<lambda>(t, p). (p - t)\<^sup>2) [(1 :: real, 4 :: real), (3, 7)]) / real (length [(1 :: real, 4 :: real), (3, 7)])
             = 25 / 2" by simp
  from rmse_masked [of "[NaN, NaN]" "[Fin 1, Fin 2]" "[]"] a
  have 1: "rmse [NaN, NaN] [Fin 1, Fin 2] = Fin 0" by blast
  from rmse_masked [of "[Fin 1, NaN, Fin 3]" "[Fin 4, Fin 7, Fin 7]" "[(1, 4), (3, 7)]"] b c
  have 2: "rmse [Fin 1, NaN, Fin 3] [Fin 4, Fin 7, Fin 7] = masked_rms_error [Fin 1, NaN, Fin 3] [Fin 4, Fin 7, Fin 7]"
    and 3: "rmse [Fin 1, NaN, Fin 3] [Fin 4, Fin 7, Fin 7] =
      Fin (sqrt (sum_list (map (\<lambda>(t, p). (p - t)\<^sup>2) [(1, 4), (3, 7)]) / real (length [(1 :: real, 4 :: real), (3, 7)])))"
    by blast+
  from 1 2 3 show ?thesis unfolding d by blast
qed

text \<open>
  Claim C7. For a tensor whose non-missing values are at least two, \<open>mean_masked\<close> is
  the mean of the non-missing values and \<open>std_masked\<close> their sample standard deviation
  with denominator \<open>n - 1\<close>: in the arithmetic of the code for any values, and as the
  real numbers \<open>real_mean\<close> and \<open>real_std\<close> when the non-missing values are finite.
\<close>

theorem masked_mean_std:
  "(2 \<le> length (nonmissing y) \<longrightarrow>
      mean_masked y = plain_mean (nonmissing y) \<and> std_masked y = plain_std (nonmissing y))
   \<and> (nonmissing y = map Fin rs \<and> 2 \<le> length rs \<longrightarrow>
      mean_masked y = Fin (real_mean rs) \<and> std_masked y = Fin (real_std rs))"
proof (intro conjI impI)
  show "mean_masked y = plain_mean (nonmissing y)" by (rule mean_masked_plain)
  show "std_masked y = plain_std (nonmissing y)" by (rule std_masked_plain)
next
  assume a: "nonmissing y = map Fin rs \<and> 2 \<le> length rs"
  then have "rs \<noteq> []" by auto
  with a show "mean_masked y = Fin (real_mean rs)"
    by (simp add: mean_masked_plain plain_mean_Fin)
  from a show "std_masked y = Fin (real_std rs)"
    by (simp add: std_masked_plain plain_std_Fin)
qed

theorem masked_mean_std_witness:
  "mean_masked [Fin 1, NaN, Fin 3] = plain_mean [Fin 1, Fin 3]
   \<and> std_masked [Fin 1, NaN, Fin 3] = plain_std [Fin 1, Fin 3]
   \<and> mean_masked [Fin 1, NaN, Fin 3] = Fin 2
   \<and> std_masked [Fin 1, NaN, Fin 3] = Fin (sqrt 2)"
proof -
  have n: "nonmissing [Fin 1, NaN, Fin 3] = [Fin 1, Fin 3]" by (simp add: nonmissing_def)
  have a: "2 \<le> length (nonmissing [Fin 1, NaN, Fin 3])" by (simp add: n)
  have b: "nonmissing [Fin 1, NaN, Fin 3] = map Fin [1, 3] \<and> 2 \<le> length [1, 3 :: real]"
    by (simp add: n)
  have m: "real_mean [1, 3] = 2" by (simp add: real_mean_def)
  have s: "real_std [1, 3] = sqrt 2" by (simp add: real_std_def m)
  from masked_mean_std [of "[Fin 1, NaN, Fin 3]" "[1, 3]"] a b
  show ?thesis unfolding n m s by blast
qed

section \<open>Properties of the plausibility filter\<close>

lemma remove_Ar_above_nth:
  assumes "length Ar0 = length delPhi0" and "i < length Ar0"
  shows "fst (remove_Ar_above (Ar0, delPhi0)) ! i = (if fle (Ar0 ! i) (Fin 1.1) then Ar0 ! i else NaN)"
    and "snd (remove_Ar_above (Ar0, delPhi0)) ! i = (if fle (Ar0 ! i) (Fin 1.1) then delPhi0 ! i else NaN)"
  using assms by (simp_all add: remove_Ar_above_def Let_def)

lemma remove_Ar_above_length:
  "length (fst (remove_Ar_above (Ar0, delPhi0))) = length Ar0"
  "length (snd (remove_Ar_above (Ar0, delPhi0))) = length delPhi0"
  by (simp_all add: remove_Ar_above_def Let_def)

lemma remove_delPhi_below_nth:
  assumes "length Ar1 = length delPhi1" and "i < length Ar1"
  shows "fst (remove_delPhi_below (Ar1, delPhi1)) ! i = (if fge (delPhi1 ! i) (Fin (- 10)) then Ar1 ! i else NaN)"
    and "snd (remove_delPhi_below (Ar1, delPhi1)) ! i = (if fge (delPhi1 ! i) (Fin (- 10)) then delPhi1 ! i else NaN)"
  using assms by (simp_all add: remove_delPhi_below_def Let_def)

lemma remove_delPhi_below_length:
  "length (fst (remove_delPhi_below (Ar1, delPhi1))) = length Ar1"
  "length (snd (remove_delPhi_below (Ar1, delPhi1))) = length delPhi1"
  by (simp_all add: remove_delPhi_below_def Let_def)

lemma reset_delPhi_nth:
  assumes "i < length delPhi2"
  shows "fst (reset_delPhi (Ar2, delPhi2)) = Ar2"
    and "snd (reset_delPhi (Ar2, delPhi2)) ! i =
          (if fgt (delPhi2 ! i) (Fin 0) then delPhi2 ! i else if isfinite (delPhi2 ! i) then Fin 0 else NaN)"
  using assms by (simp_all add: reset_delPhi_def)

lemma plausibility_filter_length:
  "length (fst (plausibility_filter Ar0 delPhi0)) = length Ar0"
  "length (snd (plausibility_filter Ar0 delPhi0)) = length delPhi0"
  by (simp_all add: plausibility_filter_def reset_delPhi_def remove_delPhi_below_def remove_Ar_above_def Let_def)

lemma plausibility_filter_nth:
  assumes "length Ar0 = length delPhi0" and "i < length Ar0"
  shows "fst (plausibility_filter Ar0 delPhi0) ! i =
           (if fle (Ar0 ! i) (Fin 1.1) \<and> fge (delPhi0 ! i) (Fin (- 10)) then Ar0 ! i else NaN)"
    and "snd (plausibility_filter Ar0 delPhi0) ! i =
           (if fle (Ar0 ! i) (Fin 1.1) \<and> fge (delPhi0 ! i) (Fin (- 10))
            then (if fgt (delPhi0 ! i) (Fin 0) then delPhi0 ! i else Fin 0) else NaN)"
proof -
  show "fst (plausibility_filter Ar0 delPhi0) ! i =
           (if fle (Ar0 ! i) (Fin 1.1) \<and> fge (delPhi0 ! i) (Fin (- 10)) then Ar0 ! i else NaN)"
    using assms
    by (simp add: plausibility_filter_def reset_delPhi_def remove_delPhi_below_def remove_Ar_above_def Let_def fge_def)
  show "snd (plausibility_filter Ar0 delPhi0) ! i =
           (if fle (Ar0 ! i) (Fin 1.1) \<and> fge (delPhi0 ! i) (Fin (- 10))
            then (if fgt (delPhi0 ! i) (Fin 0) then delPhi0 ! i else Fin 0) else NaN)"
    using assms
    by (cases "delPhi0 ! i")
      (simp_all add: plausibility_filter_def reset_delPhi_def remove_delPhi_below_def remove_Ar_above_def Let_def fge_def fgt_def)
qed

lemma rules_composed:
  "isnan a = isnan d \<Longrightarrow>
   rule_iii (rule_ii (rule_i (a, d))) =
     (if fle a (Fin 1.1) \<and> fge d (Fin (- 10)) then (a, if fgt d (Fin 0) then d else Fin 0) else (NaN, NaN))"
  by (cases a; cases d) (auto simp add: rule_i_def rule_ii_def rule_iii_def fge_def fgt_def)

text \<open>The three steps at one index of two lists of equal length.\<close>

lemma filter_steps_nth:
  assumes "length Ar0 = length delPhi0" and "i < length Ar0"
  defines "s1 \<equiv> remove_Ar_above (Ar0, delPhi0)"
  defines "s2 \<equiv> remove_delPhi_below s1"
  defines "s3 \<equiv> reset_delPhi s2"
  shows "plausibility_filter Ar0 delPhi0 = s3
    \<and> (fgt (Ar0 ! i) (Fin 1.1) \<longrightarrow> fst s1 ! i = NaN \<and> snd s1 ! i = NaN)
    \<and> (flt (snd s1 ! i) (Fin (- 10)) \<longrightarrow> fst s2 ! i = NaN \<and> snd s2 ! i = NaN)
    \<and> (fle (Fin (- 10)) (snd s2 ! i) \<and> fle (snd s2 ! i) (Fin 0) \<longrightarrow> snd s3 ! i = Fin 0 \<and> fst s3 ! i = fst s2 ! i)
    \<and> (isnan (Ar0 ! i) = isnan (delPhi0 ! i) \<longrightarrow>
         (fst s3 ! i, snd s3 ! i) = rule_iii (rule_ii (rule_i (Ar0 ! i, delPhi0 ! i))))
    \<and> (Ar0 ! i = Fin 1.2 \<and> delPhi0 ! i = Fin 5 \<longrightarrow> fst s3 ! i = NaN \<and> snd s3 ! i = NaN)
    \<and> (fle (Ar0 ! i) (Fin 1.1) \<and> delPhi0 ! i = Fin (- 3) \<longrightarrow> fst s3 ! i = Ar0 ! i \<and> snd s3 ! i = Fin 0)"
proof -
  have eq: "plausibility_filter Ar0 delPhi0 = s3"
    by (simp add: s3_def s2_def s1_def plausibility_filter_def)
  have r1: "fgt (Ar0 ! i) (Fin 1.1) \<longrightarrow> fst s1 ! i = NaN \<and> snd s1 ! i = NaN"
    using assms(1,2) unfolding s1_def
    by (cases "Ar0 ! i") (simp_all add: remove_Ar_above_nth fgt_def)
  have l1: "length (fst s1) = length (snd s1)" "i < length (fst s1)"
    using assms(1,2) by (simp_all add: s1_def remove_Ar_above_length)
  have r2: "flt (snd s1 ! i) (Fin (- 10)) \<longrightarrow> fst s2 ! i = NaN \<and> snd s2 ! i = NaN"
    using remove_delPhi_below_nth [OF l1] unfolding s2_def
    by (cases "snd s1 ! i") (simp_all add: fge_def)
  have l2: "i < length (snd s2)"
    using l1 remove_delPhi_below_length [of "fst s1" "snd s1"] by (simp add: s2_def)
  have r3: "fle (Fin (- 10)) (snd s2 ! i) \<and> fle (snd s2 ! i) (Fin 0) \<longrightarrow> snd s3 ! i = Fin 0 \<and> fst s3 ! i = fst s2 ! i"
    using reset_delPhi_nth [OF l2, of "fst s2"] unfolding s3_def
    by (cases "snd s2 ! i") (simp_all add: fgt_def)
  have r4: "isnan (Ar0 ! i) = isnan (delPhi0 ! i) \<longrightarrow>
         (fst s3 ! i, snd s3 ! i) = rule_iii (rule_ii (rule_i (Ar0 ! i, delPhi0 ! i)))"
    using assms(1,2) plausibility_filter_nth [OF assms(1,2)] unfolding eq
    by (auto simp add: rules_composed)
  have r5: "Ar0 ! i = Fin 1.2 \<and> delPhi0 ! i = Fin 5 \<longrightarrow> fst s3 ! i = NaN \<and> snd s3 ! i = NaN"
    using plausibility_filter_nth [OF assms(1,2)] unfolding eq by simp
  have r6: "fle (Ar0 ! i) (Fin 1.1) \<and> delPhi0 ! i = Fin (- 3) \<longrightarrow> fst s3 ! i = Ar0 ! i \<and> snd s3 ! i = Fin 0"
    using plausibility_filter_nth [OF assms(1,2)] unfolding eq by (simp add: fge_def fgt_def)
  from eq r1 r2 r3 r4 r5 r6 show ?thesis by blast
qed

lemma filter_missing_together:
  assumes "length Ar0 = length delPhi0" and "i < length Ar0"
  shows "isnan (fst (plausibility_filter Ar0 delPhi0) ! i) \<longleftrightarrow> isnan (snd (plausibility_filter Ar0 delPhi0) ! i)"
  using assms by (cases "Ar0 ! i"; cases "delPhi0 ! i") (simp_all add: plausibility_filter_nth fge_def fgt_def)

section \<open>Properties of the estimator and of the table builder\<close>

lemma sequence_err_Inr:
  "sequence_err rs = Inr vs \<Longrightarrow> length vs = length rs \<and> (\<forall>i<length rs. rs ! i = Inr (vs ! i))"
proof (induction rs arbitrary: vs)
  case Nil
  then show ?case by simp
next
  case (Cons r rs)
  from Cons.prems obtain v vs' where r: "r = Inr v" and rs: "sequence_err rs = Inr vs'" and vs: "vs = v # vs'"
    by (auto split: sum.splits)
  from Cons.IH [OF rs] show ?case
    by (auto simp add: r vs nth_Cons split: nat.splits)
qed

lemma sequence_err_Inl:
  "sequence_err rs = Inl e \<Longrightarrow> \<exists>i<length rs. rs ! i = Inl e"
proof (induction rs)
  case Nil
  then show ?case by simp
next
  case (Cons r rs)
  show ?case
  proof (cases r)
    case (Inl e')
    with Cons.prems have "e' = e" by simp
    with Inl show ?thesis by auto
  next
    case (Inr v)
    with Cons.prems have "sequence_err rs = Inl e" by (auto split: sum.splits)
    from Cons.IH [OF this] obtain i where "i < length rs" "rs ! i = Inl e" by blast
    then have "Suc i < length (r # rs) \<and> (r # rs) ! Suc i = Inl e" by simp
    then show ?thesis by blast
  qed
qed

lemma sequence_err_total:
  "(\<forall>r \<in> set rs. \<exists>v. r = Inr v) \<Longrightarrow> \<exists>vs. sequence_err rs = Inr vs"
  by (induction rs) auto

lemma ratio_list_Inr:
  assumes "ratio_list ws as = Inr rs"
  shows "length rs = length ws"
    and "i < length ws \<Longrightarrow> as ! i \<noteq> Fin 0 \<and> rs ! i = fdiv (ws ! i) (as ! i)"
proof -
  from sequence_err_Inr [OF assms [unfolded ratio_list_def]]
  have len: "length rs = length ws"
    and nth: "\<forall>i<length ws. py_div (ws ! i) (as ! i) = Inr (rs ! i)"
    by simp_all
  show "length rs = length ws" by (rule len)
  show "i < length ws \<Longrightarrow> as ! i \<noteq> Fin 0 \<and> rs ! i = fdiv (ws ! i) (as ! i)"
    using nth by (auto simp add: py_div_def split: if_splits)
qed

lemma ratio_list_Inl:
  assumes "ratio_list ws as = Inl e"
  shows "e = ZeroDivisionError \<and> (\<exists>i<length ws. as ! i = Fin 0)"
proof -
  from sequence_err_Inl [OF assms [unfolded ratio_list_def]]
  obtain i where "i < length ws" "py_div (ws ! i) (as ! i) = Inl e" by auto
  then show ?thesis by (auto simp add: py_div_def split: if_splits)
qed

lemma ratio_list_total:
  assumes "\<forall>i<length ws. as ! i \<noteq> Fin 0"
  shows "\<exists>rs. ratio_list ws as = Inr rs"
  unfolding ratio_list_def
  by (rule sequence_err_total) (use assms in \<open>auto simp add: py_div_def\<close>)

lemma days_list_nth:
  "length (days_list ws as) = length ws"
  "i < length ws \<Longrightarrow> days_list ws as ! i = fdiv (fmul (fsub (ws ! i) (as ! i)) (Fin 365)) (Fin (2 * pi))"
  by (simp_all add: days_list_def)

lemma sum_of_squares_not_negative:
  "fadd (square u) (square v) = NaN \<or> fadd (square u) (square v) = PInf
     \<or> (\<exists>r\<ge>0. fadd (square u) (square v) = Fin r)"
  by (cases u; cases v) (simp_all add: square_def)

lemma amp_phi_None:
  assumes "ols (if isWater then map (\<lambda>x. if fge x (Fin 1) \<and> fle x (Fin 45) then x else NaN) temp else temp)
               (map (\<lambda>j. (sin (2 * pi * j), cos (2 * pi * j))) (make_decimal_date Date)) = None"
  shows "amp_phi ols Date temp isWater = all_missing"
  using assms by (simp add: amp_phi_def Let_def all_missing_def)

lemma amp_phi_Some:
  assumes "ols (if isWater then map (\<lambda>x. if fge x (Fin 1) \<and> fle x (Fin 45) then x else NaN) temp else temp)
               (map (\<lambda>j. (sin (2 * pi * j), cos (2 * pi * j))) (make_decimal_date Date)) = Some r"
    and "params r = (p0, p1, p2)"
  shows "amp (amp_phi ols Date temp isWater) = fsqrt (fadd (square p1) (square p2))"
    and "phi (amp_phi ols Date temp isWater) = fsub (Fin (3 * pi / 2)) (fatan (fdiv p2 p1))"
  using assms by (simp_all add: amp_phi_def Let_def split: prod.splits)

lemma phase_finite_or_nan: "fsub (Fin c) (fatan v) = NaN \<or> (\<exists>x. fsub (Fin c) (fatan v) = Fin x)"
  by (cases v) (simp_all add: fsub_def)

lemma amplitude_positive:
  assumes "\<not> isnan (fsub (Fin c) (fatan (fdiv p2 p1)))"
    and "p1 \<noteq> PInf" "p1 \<noteq> NInf" "p2 \<noteq> PInf" "p2 \<noteq> NInf"
  shows "\<exists>r>0. fsqrt (fadd (square p1) (square p2)) = Fin r"
proof -
  from assms obtain a b where p: "p1 = Fin a" "p2 = Fin b"
    by (cases p1; cases p2) (simp_all add: fsub_def)
  from assms(1) have nz: "a \<noteq> 0 \<or> b \<noteq> 0"
    by (auto simp add: p fsub_def split: if_splits)
  then have pos: "0 < a * a + b * b"
    by (metis add_pos_nonneg add_nonneg_pos mult_eq_0_iff not_real_square_gt_zero zero_le_square)
  then have "0 < sqrt (a * a + b * b)" by simp
  with pos show ?thesis by (simp add: p square_def)
qed

lemma amp_phi_phi: "phi (amp_phi ols Date temp isWater) = NaN \<or> (\<exists>x. phi (amp_phi ols Date temp isWater) = Fin x)"
proof (cases "ols (if isWater then map (\<lambda>x. if fge x (Fin 1) \<and> fle x (Fin 45) then x else NaN) temp else temp)
               (map (\<lambda>j. (sin (2 * pi * j), cos (2 * pi * j))) (make_decimal_date Date))")
  case None
  from amp_phi_None [of ols isWater temp Date, OF None] show ?thesis by (simp add: all_missing_def)
next
  case (Some r)
  obtain p0 p1 p2 where p: "params r = (p0, p1, p2)" by (cases "params r") auto
  from amp_phi_Some(2) [of ols isWater temp Date r p0 p1 p2, OF Some p]
    phase_finite_or_nan [of "3 * pi / 2" "fdiv p2 p1"]
  show ?thesis by simp
qed

lemma amp_phi_amp_pos:
  assumes "finite_coefficients ols" and "\<not> isnan (phi (amp_phi ols Date temp isWater))"
  shows "\<exists>r>0. amp (amp_phi ols Date temp isWater) = Fin r"
proof (cases "ols (if isWater then map (\<lambda>x. if fge x (Fin 1) \<and> fle x (Fin 45) then x else NaN) temp else temp)
               (map (\<lambda>j. (sin (2 * pi * j), cos (2 * pi * j))) (make_decimal_date Date))")
  case None
  from amp_phi_None [of ols isWater temp Date, OF None] assms(2) show ?thesis
    by (simp add: all_missing_def)
next
  case (Some r)
  obtain p0 p1 p2 where p: "params r = (p0, p1, p2)" by (cases "params r") auto
  have f: "p1 \<noteq> PInf" "p1 \<noteq> NInf" "p2 \<noteq> PInf" "p2 \<noteq> NInf"
    using assms(1) Some p unfolding finite_coefficients_def by fastforce+
  note ap = amp_phi_Some [of ols isWater temp Date r p0 p1 p2, OF Some p]
  from assms(2) have "\<not> isnan (fsub (Fin (3 * pi / 2)) (fatan (fdiv p2 p1)))" by (simp add: ap(2))
  from amplitude_positive [OF this f] show ?thesis by (simp add: ap(1))
qed

lemma water_obs_fit_cases:
  "water_obs_fit ols dates obs = all_missing \<or> (\<exists>D t. water_obs_fit ols dates obs = amp_phi ols D t True)"
  by (auto simp add: water_obs_fit_def Let_def)

lemma water_obs_fit_phi:
  "phi (water_obs_fit ols dates obs) = NaN \<or> (\<exists>x. phi (water_obs_fit ols dates obs) = Fin x)"
proof -
  from water_obs_fit_cases [of ols dates obs] show ?thesis
  proof
    assume "water_obs_fit ols dates obs = all_missing"
    then show ?thesis by (simp add: all_missing_def)
  next
    assume "\<exists>D t. water_obs_fit ols dates obs = amp_phi ols D t True"
    then obtain D t where "water_obs_fit ols dates obs = amp_phi ols D t True" by blast
    with amp_phi_phi [of ols D t True] show ?thesis by simp
  qed
qed

lemma water_obs_fit_amp_pos:
  assumes "finite_coefficients ols" and "\<not> isnan (phi (water_obs_fit ols dates obs))"
  shows "\<exists>r>0. amp (water_obs_fit ols dates obs) = Fin r"
proof -
  from water_obs_fit_cases [of ols dates obs] show ?thesis
  proof
    assume "water_obs_fit ols dates obs = all_missing"
    with assms(2) show ?thesis by (simp add: all_missing_def)
  next
    assume "\<exists>D t. water_obs_fit ols dates obs = amp_phi ols D t True"
    then obtain D t where e: "water_obs_fit ols dates obs = amp_phi ols D t True" by blast
    from assms(2) have "\<not> isnan (phi (amp_phi ols D t True))" by (simp add: e)
    from amp_phi_amp_pos [OF assms(1) this] show ?thesis by (simp add: e)
  qed
qed

lemma then_err_Inr: "then_err r f = Inr v \<longleftrightarrow> (\<exists>u. r = Inr u \<and> f u = Inr v)"
  by (cases r) (simp_all add: then_err_def)

lemma then_err_Inl: "then_err r f = Inl e \<longleftrightarrow> (r = Inl e \<or> (\<exists>u. r = Inr u \<and> f u = Inl e))"
  by (cases r) (simp_all add: then_err_def)

lemma annual_temp_stats_Inr:
  assumes "annual_temp_stats ols thisData = Inr T"
  shows "\<exists>Ar0 Ar_low Ar_high Ar_p.
     ratio_list (map (\<lambda>s. amp (water_obs_fit ols (date thisData) (tave_water_obs s))) (segments thisData))
                (map (\<lambda>s. amp (amp_phi ols (date thisData) (tave_air s) False)) (segments thisData)) = Inr Ar0
   \<and> ratio_list (map (\<lambda>s. amp_low (water_obs_fit ols (date thisData) (tave_water_obs s))) (segments thisData))
                (map (\<lambda>s. amp_high (amp_phi ols (date thisData) (tave_air s) False)) (segments thisData)) = Inr Ar_low
   \<and> ratio_list (map (\<lambda>s. amp_high (water_obs_fit ols (date thisData) (tave_water_obs s))) (segments thisData))
                (map (\<lambda>s. amp_low (amp_phi ols (date thisData) (tave_air s) False)) (segments thisData)) = Inr Ar_high
   \<and> ratio_list (map (\<lambda>s. amp (amp_phi ols (date thisData) (tave_water_pbm s) True)) (segments thisData))
                (map (\<lambda>s. amp (amp_phi ols (date thisData) (tave_air s) False)) (segments thisData)) = Inr Ar_p
   \<and> Ar_obs T = fst (plausibility_filter Ar0
        (days_list (map (\<lambda>s. phi (water_obs_fit ols (date thisData) (tave_water_obs s))) (segments thisData))
                   (map (\<lambda>s. phi (amp_phi ols (date thisData) (tave_air s) False)) (segments thisData))))
   \<and> delPhi_obs T = snd (plausibility_filter Ar0
        (days_list (map (\<lambda>s. phi (water_obs_fit ols (date thisData) (tave_water_obs s))) (segments thisData))
                   (map (\<lambda>s. phi (amp_phi ols (date thisData) (tave_air s) False)) (segments thisData))))
   \<and> Ar_low_obs T = Ar_low \<and> Ar_high_obs T = Ar_high \<and> Ar_pbm T = Ar_p
   \<and> delPhi_low_obs T =
        days_list (map (\<lambda>s. phi_low (water_obs_fit ols (date thisData) (tave_water_obs s))) (segments thisData))
                  (map (\<lambda>s. phi_high (amp_phi ols (date thisData) (tave_air s) False)) (segments thisData))
   \<and> delPhi_high_obs T =
        days_list (map (\<lambda>s. phi_high (water_obs_fit ols (date thisData) (tave_water_obs s))) (segments thisData))
                  (map (\<lambda>s. phi_low (amp_phi ols (date thisData) (tave_air s) False)) (segments thisData))
   \<and> seg_id_nat T = map seg (segments thisData)"
  using assms
  unfolding annual_temp_stats_def Let_def then_err_Inr
  by (auto simp add: o_def)

lemma days_nan: "isnan (fdiv (fmul (fsub w a) (Fin 365)) (Fin (2 * pi))) \<longleftrightarrow> isnan w \<or> isnan a \<or> (w = PInf \<and> a = PInf) \<or> (w = NInf \<and> a = NInf)"
  by (cases w; cases a) (simp_all add: fsub_def)

lemma days_Fin: "fdiv (fmul (fsub (Fin w) (Fin a)) (Fin 365)) (Fin (2 * pi)) = Fin ((w - a) * 365 / (2 * pi))"
  by (simp add: fsub_Fin)

text \<open>The raw pair of one segment and what the filter makes of it.\<close>

lemma table_row:
  assumes T: "annual_temp_stats ols thisData = Inr T" and i: "i < length (segments thisData)"
  defines "w \<equiv> water_obs_fit ols (date thisData) (tave_water_obs (segments thisData ! i))"
  defines "a \<equiv> amp_phi ols (date thisData) (tave_air (segments thisData ! i)) False"
  defines "Ar \<equiv> fdiv (amp w) (amp a)"
  defines "dP \<equiv> fdiv (fmul (fsub (phi w) (phi a)) (Fin 365)) (Fin (2 * pi))"
  shows "amp a \<noteq> Fin 0"
    and "length (Ar_obs T) = length (segments thisData)"
    and "length (delPhi_obs T) = length (segments thisData)"
    and "Ar_obs T ! i = (if fle Ar (Fin 1.1) \<and> fge dP (Fin (- 10)) then Ar else NaN)"
    and "delPhi_obs T ! i = (if fle Ar (Fin 1.1) \<and> fge dP (Fin (- 10))
            then (if fgt dP (Fin 0) then dP else Fin 0) else NaN)"
proof -
  let ?ws = "map (\<lambda>s. amp (water_obs_fit ols (date thisData) (tave_water_obs s))) (segments thisData)"
  let ?as = "map (\<lambda>s. amp (amp_phi ols (date thisData) (tave_air s) False)) (segments thisData)"
  let ?wp = "map (\<lambda>s. phi (water_obs_fit ols (date thisData) (tave_water_obs s))) (segments thisData)"
  let ?ap = "map (\<lambda>s. phi (amp_phi ols (date thisData) (tave_air s) False)) (segments thisData)"
  from annual_temp_stats_Inr [OF T] obtain Ar0 where
    r: "ratio_list ?ws ?as = Inr Ar0"
    and A: "Ar_obs T = fst (plausibility_filter Ar0 (days_list ?wp ?ap))"
    and D: "delPhi_obs T = snd (plausibility_filter Ar0 (days_list ?wp ?ap))"
    by blast
  have len: "length Ar0 = length (segments thisData)"
    using ratio_list_Inr(1) [OF r] by simp
  have i': "i < length ?ws" using i by simp
  from ratio_list_Inr(2) [OF r i'] i
  have nz: "amp a \<noteq> Fin 0" and Ar0: "Ar0 ! i = Ar"
    by (simp_all add: a_def w_def Ar_def)
  have dl: "length (days_list ?wp ?ap) = length (segments thisData)"
    by (simp add: days_list_nth(1))
  have dP0: "days_list ?wp ?ap ! i = dP"
    using i by (simp add: days_list_nth(2) dP_def w_def a_def)
  have eq: "length Ar0 = length (days_list ?wp ?ap)" using len dl by simp
  have iA: "i < length Ar0" using i len by simp
  show "amp a \<noteq> Fin 0" by (rule nz)
  show "length (Ar_obs T) = length (segments thisData)"
    by (simp add: A plausibility_filter_length len)
  show "length (delPhi_obs T) = length (segments thisData)"
    by (simp add: D plausibility_filter_length dl)
  show "Ar_obs T ! i = (if fle Ar (Fin 1.1) \<and> fge dP (Fin (- 10)) then Ar else NaN)"
    unfolding A plausibility_filter_nth(1) [OF eq iA] Ar0 dP0 ..
  show "delPhi_obs T ! i = (if fle Ar (Fin 1.1) \<and> fge dP (Fin (- 10))
            then (if fgt dP (Fin 0) then dP else Fin 0) else NaN)"
    unfolding D plausibility_filter_nth(2) [OF eq iA] Ar0 dP0 ..
qed

lemma kept_not_nan: "fle x y \<Longrightarrow> \<not> isnan x"
  by (cases x) simp_all

lemma kept_not_nan_ge: "fge x y \<Longrightarrow> \<not> isnan x"
  by (cases x; cases y) (simp_all add: fge_def)

text \<open>
  Claim C10. In every table the builder returns, and for every segment, \<open>Ar_obs\<close> is
  missing exactly when \<open>delPhi_obs\<close> is missing; and when either derived value is
  missing before the filter (a failed or withheld fit of the water or of the air series
  makes it so), both are missing after it.
\<close>

theorem missing_in_one_is_missing_in_both:
  assumes "annual_temp_stats ols thisData = Inr T" and "i < length (segments thisData)"
  shows "i < length (Ar_obs T) \<and> i < length (delPhi_obs T)
    \<and> (isnan (Ar_obs T ! i) \<longleftrightarrow> isnan (delPhi_obs T ! i))
    \<and> (isnan (fdiv (amp (water_obs_fit ols (date thisData) (tave_water_obs (segments thisData ! i))))
                    (amp (amp_phi ols (date thisData) (tave_air (segments thisData ! i)) False)))
        \<or> isnan (fdiv (fmul (fsub (phi (water_obs_fit ols (date thisData) (tave_water_obs (segments thisData ! i))))
                                   (phi (amp_phi ols (date thisData) (tave_air (segments thisData ! i)) False)))
                             (Fin 365)) (Fin (2 * pi)))
        \<longrightarrow> Ar_obs T ! i = NaN \<and> delPhi_obs T ! i = NaN)"
proof -
  let ?Ar = "fdiv (amp (water_obs_fit ols (date thisData) (tave_water_obs (segments thisData ! i))))
                    (amp (amp_phi ols (date thisData) (tave_air (segments thisData ! i)) False))"
  let ?dP = "fdiv (fmul (fsub (phi (water_obs_fit ols (date thisData) (tave_water_obs (segments thisData ! i))))
                                   (phi (amp_phi ols (date thisData) (tave_air (segments thisData ! i)) False)))
                             (Fin 365)) (Fin (2 * pi))"
  note row = table_row [OF assms]
  have 1: "i < length (Ar_obs T) \<and> i < length (delPhi_obs T)"
    using assms(2) row(2,3) by simp
  have 2: "isnan (Ar_obs T ! i) \<longleftrightarrow> isnan (delPhi_obs T ! i)"
    unfolding row(4,5) using kept_not_nan [of ?Ar "Fin 1.1"] kept_not_nan_ge [of ?dP "Fin (- 10)"]
    by auto
  have 3: "isnan ?Ar \<or> isnan ?dP \<longrightarrow> Ar_obs T ! i = NaN \<and> delPhi_obs T ! i = NaN"
    unfolding row(4,5) using kept_not_nan [of ?Ar "Fin 1.1"] kept_not_nan_ge [of ?dP "Fin (- 10)"]
    by auto
  from 1 2 3 show ?thesis by blast
qed

text \<open>
  Claim C9. In every table the builder returns, and for every segment, \<open>Ar_obs\<close> is
  missing or lies in \<open>(0, 1.1]\<close>, and \<open>delPhi_obs\<close> is missing or a finite number of days
  that is at least \<open>0\<close>. The regression is assumed to return no infinite coefficient.
\<close>

theorem filtered_record_within_bounds:
  assumes "finite_coefficients ols"
    and "annual_temp_stats ols thisData = Inr T" and "i < length (segments thisData)"
  shows "(Ar_obs T ! i = NaN \<or> (\<exists>r. Ar_obs T ! i = Fin r \<and> 0 < r \<and> r \<le> 1.1))
       \<and> (delPhi_obs T ! i = NaN \<or> (\<exists>d. delPhi_obs T ! i = Fin d \<and> 0 \<le> d))"
proof -
  let ?w = "water_obs_fit ols (date thisData) (tave_water_obs (segments thisData ! i))"
  let ?a = "amp_phi ols (date thisData) (tave_air (segments thisData ! i)) False"
  let ?Ar = "fdiv (amp ?w) (amp ?a)"
  let ?dP = "fdiv (fmul (fsub (phi ?w) (phi ?a)) (Fin 365)) (Fin (2 * pi))"
  note row = table_row [OF assms(2,3)]
  show ?thesis
  proof (cases "fle ?Ar (Fin 1.1) \<and> fge ?dP (Fin (- 10))")
    case False
    then show ?thesis unfolding row(4,5) by auto
  next
    case True
    then have "\<not> isnan ?dP" using kept_not_nan_ge by blast
    then have nn: "\<not> isnan (phi ?w)" "\<not> isnan (phi ?a)" by (simp_all add: days_nan)
    from nn(1) water_obs_fit_phi [of ols "date thisData" "tave_water_obs (segments thisData ! i)"]
    obtain pw where pw: "phi ?w = Fin pw" by auto
    from nn(2) amp_phi_phi [of ols "date thisData" "tave_air (segments thisData ! i)" False]
    obtain pa where pa: "phi ?a = Fin pa" by auto
    from water_obs_fit_amp_pos [OF assms(1) nn(1)] obtain rw where rw: "0 < rw" "amp ?w = Fin rw" by blast
    from amp_phi_amp_pos [OF assms(1) nn(2)] obtain ra where ra: "0 < ra" "amp ?a = Fin ra" by blast
    have Ar: "?Ar = Fin (rw / ra)" using rw ra by simp
    have dP: "?dP = Fin ((pw - pa) * 365 / (2 * pi))" by (simp add: pw pa days_Fin)
    from True have le: "rw / ra \<le> 1.1" by (simp add: Ar)
    have pos: "0 < rw / ra" using rw(1) ra(1) by simp
    have A: "Ar_obs T ! i = Fin (rw / ra)" unfolding row(4) using True by (simp add: Ar)
    have D: "delPhi_obs T ! i = Fin (if 0 < (pw - pa) * 365 / (2 * pi) then (pw - pa) * 365 / (2 * pi) else 0)"
      unfolding row(5) using True by (simp add: dP fgt_def)
    from A D pos le show ?thesis by auto
  qed
qed

lemma count_nonzero_length: "count_nonzero (map P xs) = length (filter P xs)"
  by (induction xs) (simp_all add: count_nonzero_def)

lemma retained_rows:
  "filter (\<lambda>(d, t). \<not> isnan t)
      (map (\<lambda>(d, t). (d, if flt t (Fin 1) \<or> fgt t (Fin 60) then NaN else t)) zs)
     = filter (\<lambda>(d, t). fle (Fin 1) t \<and> fle t (Fin 60)) zs"
proof (induction zs)
  case Nil
  then show ?case by simp
next
  case (Cons z zs)
  obtain d t where z: "z = (d, t)" by (cases z)
  show ?case using Cons.IH by (cases t) (auto simp add: z fgt_def)
qed

lemma water_obs_fit_threshold:
  "water_obs_fit ols dates obs =
     (if 365 < length (filter isfinite obs) \<and> 365 \<le> length (plausible_samples dates obs)
      then amp_phi ols (map fst (plausible_samples dates obs)) (map snd (plausible_samples dates obs)) True
      else all_missing)"
  by (simp add: water_obs_fit_def Let_def count_nonzero_length retained_rows plausible_samples_def)

lemma plausible_replicate:
  "fle (Fin 1) v \<and> fle v (Fin 60) \<Longrightarrow> length dates = n \<Longrightarrow>
     plausible_samples dates (replicate n v) = zip dates (replicate n v)"
  by (simp add: plausible_samples_def zip_replicate2 filter_map o_def)

lemma implausible_replicate:
  "\<not> (fle (Fin 1) v \<and> fle v (Fin 60)) \<Longrightarrow> plausible_samples dates (replicate n v) = []"
  by (auto simp add: plausible_samples_def filter_empty_conv dest!: set_zip_rightD)

lemma amp_phi_steady:
  "amp_phi steady_fit Date temp isWater =
     \<lparr>amp = Fin 1, phi = Fin (3 * pi / 2), amp_low = Fin 1, amp_high = Fin 1,
      phi_low = Fin (3 * pi / 2), phi_high = Fin (3 * pi / 2)\<rparr>"
  by (simp add: amp_phi_def steady_fit_def Let_def square_def fsub_Fin np_min_def np_max_def ci_at_def)

lemma days_from_ref_length: "length (days_from_ref n) = n"
  by (simp add: days_from_ref_def)

lemma water_obs_fit_year:
  "water_obs_fit steady_fit (days_from_ref 366) (replicate 366 (Fin 10))
     = amp_phi steady_fit (days_from_ref 366) (replicate 366 (Fin 10)) True"
  by (simp add: water_obs_fit_threshold plausible_replicate days_from_ref_length)

lemma water_obs_fit_no_data:
  "water_obs_fit ols dates (replicate n NaN) = all_missing"
  by (simp add: water_obs_fit_threshold implausible_replicate)

lemma year_and_a_day_table:
  "\<exists>T. annual_temp_stats steady_fit year_and_a_day = Inr T
       \<and> Ar_obs T = [Fin 1, NaN] \<and> delPhi_obs T = [Fin 0, NaN]
       \<and> Ar_low_obs T = [Fin 1, NaN] \<and> Ar_high_obs T = [Fin 1, NaN]
       \<and> delPhi_low_obs T = [Fin 0, NaN] \<and> delPhi_high_obs T = [Fin 0, NaN]"
  by (simp add: annual_temp_stats_def year_and_a_day_def water_obs_fit_year water_obs_fit_no_data
      amp_phi_steady all_missing_def Let_def then_err_def ratio_list_def days_list_def py_div_def
      plausibility_filter_def reset_delPhi_def remove_delPhi_below_def remove_Ar_above_def
      fsub_Fin fge_def fgt_def fsub_def)

lemma finite_coefficients_steady: "finite_coefficients steady_fit"
  by (simp add: finite_coefficients_def steady_fit_def)

text \<open>
  Claim C2. A segment with exactly 365 observed values, all of them ten degrees, has
  365 plausible samples, yet the builder withholds the fit: the first test asks for
  more than 365 finite values. With 366 such values the fit is made.
\<close>

theorem obs_fit_withheld_at_365:
  "length (plausible_samples (days_from_ref 365) (replicate 365 (Fin 10))) = 365
   \<and> water_obs_fit steady_fit (days_from_ref 365) (replicate 365 (Fin 10)) = all_missing
   \<and> amp_phi steady_fit (days_from_ref 365) (replicate 365 (Fin 10)) True \<noteq> all_missing
   \<and> water_obs_fit steady_fit (days_from_ref 366) (replicate 366 (Fin 10))
       = amp_phi steady_fit (days_from_ref 366) (replicate 366 (Fin 10)) True"
  by (simp add: water_obs_fit_threshold plausible_replicate days_from_ref_length amp_phi_steady all_missing_def)

theorem filtered_record_within_bounds_witness:
  "finite_coefficients steady_fit
   \<and> (\<exists>T. annual_temp_stats steady_fit year_and_a_day = Inr T
        \<and> Ar_obs T = [Fin 1, NaN] \<and> delPhi_obs T = [Fin 0, NaN]
        \<and> (Ar_obs T ! 0 = NaN \<or> (\<exists>r. Ar_obs T ! 0 = Fin r \<and> 0 < r \<and> r \<le> 1.1))
        \<and> (delPhi_obs T ! 0 = NaN \<or> (\<exists>d. delPhi_obs T ! 0 = Fin d \<and> 0 \<le> d)))"
proof -
  from year_and_a_day_table obtain T where T: "annual_temp_stats steady_fit year_and_a_day = Inr T"
    and v: "Ar_obs T = [Fin 1, NaN]" "delPhi_obs T = [Fin 0, NaN]" by blast
  have i: "0 < length (segments year_and_a_day)" by (simp add: year_and_a_day_def)
  from filtered_record_within_bounds [OF finite_coefficients_steady T i] T v finite_coefficients_steady
  show ?thesis by blast
qed

theorem missing_in_one_is_missing_in_both_witness:
  "\<exists>T. annual_temp_stats steady_fit year_and_a_day = Inr T
        \<and> Ar_obs T = [Fin 1, NaN] \<and> delPhi_obs T = [Fin 0, NaN]
        \<and> (isnan (Ar_obs T ! 1) \<longleftrightarrow> isnan (delPhi_obs T ! 1))"
proof -
  from year_and_a_day_table obtain T where T: "annual_temp_stats steady_fit year_and_a_day = Inr T"
    and v: "Ar_obs T = [Fin 1, NaN]" "delPhi_obs T = [Fin 0, NaN]" by blast
  have i: "1 < length (segments year_and_a_day)" by (simp add: year_and_a_day_def)
  from missing_in_one_is_missing_in_both [OF T i] T v
  show ?thesis by blast
qed

lemma annual_temp_stats_pbm:
  assumes "annual_temp_stats ols thisData = Inr T"
  shows "\<exists>Ar_p.
     ratio_list (map (\<lambda>s. amp (amp_phi ols (date thisData) (tave_water_pbm s) True)) (segments thisData))
                (map (\<lambda>s. amp (amp_phi ols (date thisData) (tave_air s) False)) (segments thisData)) = Inr Ar_p
   \<and> Ar_pbm T = Ar_p
   \<and> delPhi_pbm T =
        days_list (map (\<lambda>s. phi (amp_phi ols (date thisData) (tave_water_pbm s) True)) (segments thisData))
                  (map (\<lambda>s. phi (amp_phi ols (date thisData) (tave_air s) False)) (segments thisData))"
  using assms
  unfolding annual_temp_stats_def Let_def then_err_Inr
  by (auto simp add: o_def)

lemma annual_temp_stats_Inl:
  assumes "annual_temp_stats ols thisData = Inl e"
  shows "e = ZeroDivisionError \<and>
    (\<exists>i<length (segments thisData).
        amp (amp_phi ols (date thisData) (tave_air (segments thisData ! i)) False) = Fin 0
      \<or> amp_high (amp_phi ols (date thisData) (tave_air (segments thisData ! i)) False) = Fin 0
      \<or> amp_low (amp_phi ols (date thisData) (tave_air (segments thisData ! i)) False) = Fin 0)"
proof -
  let ?n = "length (segments thisData)"
  let ?air = "\<lambda>s. amp_phi ols (date thisData) (tave_air s) False"
  from assms consider
      ws where "ratio_list ws (map (\<lambda>s. amp (?air s)) (segments thisData)) = Inl e" "length ws = ?n"
    | ws where "ratio_list ws (map (\<lambda>s. amp_high (?air s)) (segments thisData)) = Inl e" "length ws = ?n"
    | ws where "ratio_list ws (map (\<lambda>s. amp_low (?air s)) (segments thisData)) = Inl e" "length ws = ?n"
    unfolding annual_temp_stats_def Let_def then_err_Inl
    by (auto simp add: o_def)
  then show ?thesis
  proof cases
    case 1
    from ratio_list_Inl [OF 1(1)] 1(2) show ?thesis by auto
  next
    case 2
    from ratio_list_Inl [OF 2(1)] 2(2) show ?thesis by auto
  next
    case 3
    from ratio_list_Inl [OF 3(1)] 3(2) show ?thesis by auto
  qed
qed

lemma still_air_raises: "annual_temp_stats zero_fit still_air = Inl ZeroDivisionError"
  by (simp add: annual_temp_stats_def still_air_def zero_fit_def amp_phi_def Let_def square_def
      then_err_def ratio_list_def py_div_def)

lemma still_air_amp:
  "amp (amp_phi zero_fit (date still_air) (tave_air (segments still_air ! 0)) False) = Fin 0"
  by (simp add: still_air_def zero_fit_def amp_phi_def Let_def square_def)

lemma still_air_water_missing:
  "water_obs_fit zero_fit (date still_air) (tave_water_obs (segments still_air ! 0)) = all_missing"
  by (simp add: still_air_def water_obs_fit_def count_nonzero_def)

lemma isnan_eq: "isnan v \<longleftrightarrow> v = NaN"
  by (cases v) simp_all

lemma fdiv_NaN_right: "fdiv v NaN = NaN"
  by (cases v) simp_all

lemma days_NaN:
  "fdiv (fmul (fsub NaN a) (Fin 365)) (Fin (2 * pi)) = NaN"
  "fdiv (fmul (fsub w NaN) (Fin 365)) (Fin (2 * pi)) = NaN"
  using days_nan [of NaN a] days_nan [of w NaN] by (simp_all add: isnan_eq)

lemma table_row_bounds:
  assumes T: "annual_temp_stats ols thisData = Inr T" and i: "i < length (segments thisData)"
  defines "w \<equiv> water_obs_fit ols (date thisData) (tave_water_obs (segments thisData ! i))"
  defines "a \<equiv> amp_phi ols (date thisData) (tave_air (segments thisData ! i)) False"
  defines "p \<equiv> amp_phi ols (date thisData) (tave_water_pbm (segments thisData ! i)) True"
  shows "Ar_low_obs T ! i = fdiv (amp_low w) (amp_high a)"
    and "Ar_high_obs T ! i = fdiv (amp_high w) (amp_low a)"
    and "delPhi_low_obs T ! i = fdiv (fmul (fsub (phi_low w) (phi_high a)) (Fin 365)) (Fin (2 * pi))"
    and "delPhi_high_obs T ! i = fdiv (fmul (fsub (phi_high w) (phi_low a)) (Fin 365)) (Fin (2 * pi))"
    and "Ar_pbm T ! i = fdiv (amp p) (amp a)"
    and "delPhi_pbm T ! i = fdiv (fmul (fsub (phi p) (phi a)) (Fin 365)) (Fin (2 * pi))"
proof -
  from annual_temp_stats_Inr [OF T] obtain Ar_low Ar_high where
    rl: "ratio_list (map (\<lambda>s. amp_low (water_obs_fit ols (date thisData) (tave_water_obs s))) (segments thisData))
                (map (\<lambda>s. amp_high (amp_phi ols (date thisData) (tave_air s) False)) (segments thisData)) = Inr Ar_low"
    and rh: "ratio_list (map (\<lambda>s. amp_high (water_obs_fit ols (date thisData) (tave_water_obs s))) (segments thisData))
                (map (\<lambda>s. amp_low (amp_phi ols (date thisData) (tave_air s) False)) (segments thisData)) = Inr Ar_high"
    and e: "Ar_low_obs T = Ar_low" "Ar_high_obs T = Ar_high"
    and dl: "delPhi_low_obs T =
        days_list (map (\<lambda>s. phi_low (water_obs_fit ols (date thisData) (tave_water_obs s))) (segments thisData))
                  (map (\<lambda>s. phi_high (amp_phi ols (date thisData) (tave_air s) False)) (segments thisData))"
    and dh: "delPhi_high_obs T =
        days_list (map (\<lambda>s. phi_high (water_obs_fit ols (date thisData) (tave_water_obs s))) (segments thisData))
                  (map (\<lambda>s. phi_low (amp_phi ols (date thisData) (tave_air s) False)) (segments thisData))"
    by blast
  from annual_temp_stats_pbm [OF T] obtain Ar_p where
    rp: "ratio_list (map (\<lambda>s. amp (amp_phi ols (date thisData) (tave_water_pbm s) True)) (segments thisData))
                (map (\<lambda>s. amp (amp_phi ols (date thisData) (tave_air s) False)) (segments thisData)) = Inr Ar_p"
    and ep: "Ar_pbm T = Ar_p"
    and dp: "delPhi_pbm T =
        days_list (map (\<lambda>s. phi (amp_phi ols (date thisData) (tave_water_pbm s) True)) (segments thisData))
                  (map (\<lambda>s. phi (amp_phi ols (date thisData) (tave_air s) False)) (segments thisData))"
    by blast
  show "Ar_low_obs T ! i = fdiv (amp_low w) (amp_high a)"
    using ratio_list_Inr(2) [OF rl, of i] i by (simp add: e w_def a_def)
  show "Ar_high_obs T ! i = fdiv (amp_high w) (amp_low a)"
    using ratio_list_Inr(2) [OF rh, of i] i by (simp add: e w_def a_def)
  show "Ar_pbm T ! i = fdiv (amp p) (amp a)"
    using ratio_list_Inr(2) [OF rp, of i] i by (simp add: ep p_def a_def)
  show "delPhi_low_obs T ! i = fdiv (fmul (fsub (phi_low w) (phi_high a)) (Fin 365)) (Fin (2 * pi))"
    using i by (simp add: dl days_list_nth(2) w_def a_def)
  show "delPhi_high_obs T ! i = fdiv (fmul (fsub (phi_high w) (phi_low a)) (Fin 365)) (Fin (2 * pi))"
    using i by (simp add: dh days_list_nth(2) w_def a_def)
  show "delPhi_pbm T ! i = fdiv (fmul (fsub (phi p) (phi a)) (Fin 365)) (Fin (2 * pi))"
    using i by (simp add: dp days_list_nth(2) p_def a_def)
qed

text \<open>An air amplitude of zero, or a zero bound of it, makes the builder raise.\<close>

lemma annual_temp_stats_zero_air:
  assumes k: "k < length (segments thisData)"
    and z: "amp (amp_phi ols (date thisData) (tave_air (segments thisData ! k)) False) = Fin 0
          \<or> amp_high (amp_phi ols (date thisData) (tave_air (segments thisData ! k)) False) = Fin 0
          \<or> amp_low (amp_phi ols (date thisData) (tave_air (segments thisData ! k)) False) = Fin 0"
  shows "annual_temp_stats ols thisData = Inl ZeroDivisionError"
proof (cases "annual_temp_stats ols thisData")
  case (Inl e)
  with annual_temp_stats_Inl [OF Inl] show ?thesis by simp
next
  case (Inr T)
  from annual_temp_stats_Inr [OF Inr] obtain Ar0 Ar_low Ar_high where
    r: "ratio_list (map (\<lambda>s. amp (water_obs_fit ols (date thisData) (tave_water_obs s))) (segments thisData))
                (map (\<lambda>s. amp (amp_phi ols (date thisData) (tave_air s) False)) (segments thisData)) = Inr Ar0"
    and rl: "ratio_list (map (\<lambda>s. amp_low (water_obs_fit ols (date thisData) (tave_water_obs s))) (segments thisData))
                (map (\<lambda>s. amp_high (amp_phi ols (date thisData) (tave_air s) False)) (segments thisData)) = Inr Ar_low"
    and rh: "ratio_list (map (\<lambda>s. amp_high (water_obs_fit ols (date thisData) (tave_water_obs s))) (segments thisData))
                (map (\<lambda>s. amp_low (amp_phi ols (date thisData) (tave_air s) False)) (segments thisData)) = Inr Ar_high"
    by blast
  from ratio_list_Inr(2) [OF r, of k] k
  have 1: "amp (amp_phi ols (date thisData) (tave_air (segments thisData ! k)) False) \<noteq> Fin 0" by simp
  from ratio_list_Inr(2) [OF rl, of k] k
  have 2: "amp_high (amp_phi ols (date thisData) (tave_air (segments thisData ! k)) False) \<noteq> Fin 0" by simp
  from ratio_list_Inr(2) [OF rh, of k] k
  have 3: "amp_low (amp_phi ols (date thisData) (tave_air (segments thisData ! k)) False) \<noteq> Fin 0" by simp
  from z 1 2 3 show ?thesis by blast
qed

text \<open>The two filtered columns of a returned table, from the fits of its segments.\<close>

lemma ratio_list_map:
  assumes "ratio_list (map f xs) (map g xs) = Inr rs"
  shows "rs = map (\<lambda>s. fdiv (f s) (g s)) xs"
proof (rule nth_equalityI)
  from ratio_list_Inr(1) [OF assms] show "length rs = length (map (\<lambda>s. fdiv (f s) (g s)) xs)" by simp
  fix i assume "i < length rs"
  with ratio_list_Inr(1) [OF assms] have i: "i < length (map f xs)" by simp
  from ratio_list_Inr(2) [OF assms i] i
  show "rs ! i = map (\<lambda>s. fdiv (f s) (g s)) xs ! i" by simp
qed

lemma days_list_map:
  "days_list (map f xs) (map g xs)
     = map (\<lambda>s. fdiv (fmul (fsub (f s) (g s)) (Fin 365)) (Fin (2 * pi))) xs"
  by (rule nth_equalityI) (simp_all add: days_list_nth)

lemma table_columns:
  assumes "annual_temp_stats ols thisData = Inr T"
  shows "(Ar_obs T, delPhi_obs T) =
     plausibility_filter
       (map (\<lambda>s. fdiv (amp (water_obs_fit ols (date thisData) (tave_water_obs s)))
                       (amp (amp_phi ols (date thisData) (tave_air s) False))) (segments thisData))
       (map (\<lambda>s. fdiv (fmul (fsub (phi (water_obs_fit ols (date thisData) (tave_water_obs s)))
                                   (phi (amp_phi ols (date thisData) (tave_air s) False)))
                             (Fin 365)) (Fin (2 * pi))) (segments thisData))"
proof -
  from annual_temp_stats_Inr [OF assms] obtain Ar0 where
    r: "ratio_list (map (\<lambda>s. amp (water_obs_fit ols (date thisData) (tave_water_obs s))) (segments thisData))
                (map (\<lambda>s. amp (amp_phi ols (date thisData) (tave_air s) False)) (segments thisData)) = Inr Ar0"
    and A: "Ar_obs T = fst (plausibility_filter Ar0
        (days_list (map (\<lambda>s. phi (water_obs_fit ols (date thisData) (tave_water_obs s))) (segments thisData))
                   (map (\<lambda>s. phi (amp_phi ols (date thisData) (tave_air s) False)) (segments thisData))))"
    and D: "delPhi_obs T = snd (plausibility_filter Ar0
        (days_list (map (\<lambda>s. phi (water_obs_fit ols (date thisData) (tave_water_obs s))) (segments thisData))
                   (map (\<lambda>s. phi (amp_phi ols (date thisData) (tave_air s) False)) (segments thisData))))"
    by blast
  show ?thesis
    unfolding A D ratio_list_map [OF r] days_list_map by simp
qed

text \<open>The fits that the stand-in regression gives the three segments.\<close>

lemma turned_amplitude:
  assumes "0 \<le> r"
  shows "sqrt (r * cos t * (r * cos t) + r * sin t * (r * sin t)) = r"
proof -
  have "r * cos t * (r * cos t) + r * sin t * (r * sin t) = r * r * ((sin t)\<^sup>2 + (cos t)\<^sup>2)"
    unfolding power2_eq_square by (simp only: algebra_simps)
  also have "\<dots> = r * r" by (simp only: sin_cos_squared_add mult_1_right)
  also have "\<dots> = r\<^sup>2" by (simp only: power2_eq_square)
  finally show ?thesis using assms by simp
qed

lemma turned_phase:
  assumes "0 < r" and "- (pi / 2) < t" and "t < pi / 2"
  shows "r * cos t \<noteq> 0" and "arctan (r * sin t / (r * cos t)) = t"
proof -
  from assms(2,3) have c: "0 < cos t" by (simp add: cos_gt_zero_pi)
  with assms(1) show "r * cos t \<noteq> 0" by simp
  from assms(1) have "r * sin t / (r * cos t) = tan t" by (simp add: tan_def)
  with arctan_tan [OF assms(2,3)] show "arctan (r * sin t / (r * cos t)) = t" by simp
qed

lemma amp_phi_turned:
  assumes r: "0 < r" and t: "- (pi / 2) < t" "t < pi / 2"
    and fit: "ols (if isWater then map (\<lambda>x. if fge x (Fin 1) \<and> fle x (Fin 45) then x else NaN) temp else temp)
               (map (\<lambda>j. (sin (2 * pi * j), cos (2 * pi * j))) (make_decimal_date Date)) = Some (turned r t)"
  shows "amp (amp_phi ols Date temp isWater) = Fin r"
    and "phi (amp_phi ols Date temp isWater) = Fin (3 * pi / 2 - t)"
    and "amp_low (amp_phi ols Date temp isWater) = Fin r"
    and "amp_high (amp_phi ols Date temp isWater) = Fin r"
proof -
  from r have r0: "0 \<le> r" by simp
  note ph = turned_phase [OF r t]
  show "amp (amp_phi ols Date temp isWater) = Fin r"
    using fit by (simp add: amp_phi_def Let_def turned_def square_def turned_amplitude [OF r0])
  show "phi (amp_phi ols Date temp isWater) = Fin (3 * pi / 2 - t)"
    using fit ph by (simp add: amp_phi_def Let_def turned_def fsub_Fin)
  show "amp_low (amp_phi ols Date temp isWater) = Fin r"
    using fit by (simp add: amp_phi_def Let_def turned_def square_def np_min_def turned_amplitude [OF r0])
  show "amp_high (amp_phi ols Date temp isWater) = Fin r"
    using fit by (simp add: amp_phi_def Let_def turned_def square_def np_max_def turned_amplitude [OF r0])
qed

lemma water_obs_fit_full_year:
  assumes "fle (Fin 1) v \<and> fle v (Fin 60)"
  shows "water_obs_fit ols (days_from_ref 366) (replicate 366 v)
           = amp_phi ols (days_from_ref 366) (replicate 366 v) True"
proof -
  from assms have "isfinite v" by (cases v) simp_all
  with assms show ?thesis
    by (simp add: water_obs_fit_threshold plausible_replicate days_from_ref_length)
qed

lemma small_angles:
  "- (pi / 2) < (0 :: real)" "(0 :: real) < pi / 2"
  "- (pi / 2) < - (10 * pi / 365)" "- (10 * pi / 365) < pi / 2"
  "- (pi / 2) < 6 * pi / 365" "6 * pi / 365 < pi / 2"
  "- (pi / 2) < pi / 4" "pi / 4 < pi / 2"
  by (insert pi_gt_zero, linarith+)

lemma marked_air:
  "amp (amp_phi marked_fit D (replicate 366 (Fin 12)) False) = Fin 1"
  "phi (amp_phi marked_fit D (replicate 366 (Fin 12)) False) = Fin (3 * pi / 2 - 0)"
  "amp_low (amp_phi marked_fit D (replicate 366 (Fin 12)) False) = Fin 1"
  "amp_high (amp_phi marked_fit D (replicate 366 (Fin 12)) False) = Fin 1"
  by (rule amp_phi_turned [where r = 1 and t = 0]; simp add: marked_fit_def)+

lemma marked_water_10:
  "amp (amp_phi marked_fit D (replicate 366 (Fin 10)) True) = Fin 1.2"
  "phi (amp_phi marked_fit D (replicate 366 (Fin 10)) True) = Fin (3 * pi / 2 - - (10 * pi / 365))"
  "amp_low (amp_phi marked_fit D (replicate 366 (Fin 10)) True) = Fin 1.2"
  "amp_high (amp_phi marked_fit D (replicate 366 (Fin 10)) True) = Fin 1.2"
  by (rule amp_phi_turned [where r = "1.2" and t = "- (10 * pi / 365)"];
      (rule small_angles | simp add: marked_fit_def fge_def))+

lemma marked_water_11:
  "amp (amp_phi marked_fit D (replicate 366 (Fin 11)) True) = Fin 0.6"
  "phi (amp_phi marked_fit D (replicate 366 (Fin 11)) True) = Fin (3 * pi / 2 - 6 * pi / 365)"
  by (rule amp_phi_turned [where r = "0.6" and t = "6 * pi / 365"];
      (rule small_angles | simp add: marked_fit_def fge_def))+

lemma marked_water_9:
  "amp (amp_phi marked_fit D (replicate 366 (Fin 9)) True) = Fin 0.6"
  "phi (amp_phi marked_fit D (replicate 366 (Fin 9)) True) = Fin (3 * pi / 2 - pi / 4)"
  by (rule amp_phi_turned [where r = "0.6" and t = "pi / 4"];
      (rule small_angles | simp add: marked_fit_def fge_def))+


lemma three_reaches_shape:
  "date three_reaches = days_from_ref 366"
  "length (segments three_reaches) = 3"
  "\<And>i. i < 3 \<Longrightarrow> tave_air (segments three_reaches ! i) = replicate 366 (Fin 12)"
  "tave_water_obs (segments three_reaches ! 0) = replicate 366 (Fin 10)"
  "tave_water_obs (segments three_reaches ! 1) = replicate 366 (Fin 11)"
  "tave_water_obs (segments three_reaches ! 2) = replicate 366 (Fin 9)"
  by (simp_all add: three_reaches_def nth_Cons split: nat.splits)

lemma three_reaches_returns: "\<exists>T. annual_temp_stats marked_fit three_reaches = Inr T"
proof (cases "annual_temp_stats marked_fit three_reaches")
  case (Inl e)
  from annual_temp_stats_Inl [OF Inl] have False
    by (auto simp add: three_reaches_shape marked_air)
  then show ?thesis ..
next
  case (Inr T)
  then show ?thesis by blast
qed

lemma shift_days:
  "(3 * pi / 2 - - (10 * pi / 365) - (3 * pi / 2 - 0)) * 365 / (2 * pi) = 5"
  "(3 * pi / 2 - 6 * pi / 365 - (3 * pi / 2 - 0)) * 365 / (2 * pi) = - 3"
  "(3 * pi / 2 - pi / 4 - (3 * pi / 2 - 0)) * 365 / (2 * pi) = - (365 / 8)"
  by (simp_all add: field_simps)

lemma three_reaches_raw:
  "map (\<lambda>s. fdiv (amp (water_obs_fit marked_fit (date three_reaches) (tave_water_obs s)))
                 (amp (amp_phi marked_fit (date three_reaches) (tave_air s) False)))
       (segments three_reaches) = [Fin 1.2, Fin 0.6, Fin 0.6]"
  "map (\<lambda>s. fdiv (fmul (fsub (phi (water_obs_fit marked_fit (date three_reaches) (tave_water_obs s)))
                             (phi (amp_phi marked_fit (date three_reaches) (tave_air s) False)))
                       (Fin 365)) (Fin (2 * pi)))
       (segments three_reaches) = [Fin 5, Fin (- 3), Fin (- (365 / 8))]"
proof -
  show "map (\<lambda>s. fdiv (amp (water_obs_fit marked_fit (date three_reaches) (tave_water_obs s)))
                 (amp (amp_phi marked_fit (date three_reaches) (tave_air s) False)))
       (segments three_reaches) = [Fin 1.2, Fin 0.6, Fin 0.6]"
    by (simp add: three_reaches_def water_obs_fit_full_year marked_air marked_water_10
        marked_water_11 marked_water_9)
  show "map (\<lambda>s. fdiv (fmul (fsub (phi (water_obs_fit marked_fit (date three_reaches) (tave_water_obs s)))
                             (phi (amp_phi marked_fit (date three_reaches) (tave_air s) False)))
                       (Fin 365)) (Fin (2 * pi)))
       (segments three_reaches) = [Fin 5, Fin (- 3), Fin (- (365 / 8))]"
    by (simp add: three_reaches_def water_obs_fit_full_year marked_air marked_water_10
        marked_water_11 marked_water_9 days_Fin shift_days del: fdiv.simps fmul.simps)
qed

text \<open>
  Claim C1. In every table the builder returns, the columns \<open>Ar_obs\<close> and \<open>delPhi_obs\<close>
  are the three steps applied, in their order, to the amplitude ratios and the phase
  shifts in days derived from the water and air fits of the segments. For every
  segment \<open>i\<close>: where the derived \<open>Ar_obs\<close> is above \<open>1.1\<close> the first step sets both
  values to missing; where the \<open>delPhi_obs\<close> it leaves is below \<open>-10\<close> the second step
  sets both to missing; where the \<open>delPhi_obs\<close> that leaves is between \<open>-10\<close> and \<open>0\<close>
  the third step makes it exactly \<open>0\<close> and keeps \<open>Ar_obs\<close>. In the table, a derived
  \<open>Ar_obs\<close> above \<open>1.1\<close> or a derived \<open>delPhi_obs\<close> below \<open>-10\<close> gives two missing
  values, a derived \<open>delPhi_obs\<close> between \<open>-10\<close> and \<open>0\<close> with \<open>Ar_obs \<le> 1.1\<close> gives
  \<open>delPhi_obs = 0\<close> and \<open>Ar_obs\<close> unchanged, and a positive one with \<open>Ar_obs \<le> 1.1\<close>
  leaves both unchanged. When the two derived values are missing together or present
  together, the table holds the three rules of the specification applied in order.
  A segment entering with \<open>Ar_obs = 1.2\<close> and \<open>delPhi_obs = 5\<close> ends with both missing;
  one with \<open>Ar_obs \<le> 1.1\<close> and \<open>delPhi_obs = -3\<close> ends with \<open>delPhi_obs = 0\<close> and
  \<open>Ar_obs\<close> unchanged.
\<close>

theorem plausibility_rules_in_order:
  assumes "annual_temp_stats ols thisData = Inr T" and "i < length (segments thisData)"
  defines "Ar0 \<equiv> map (\<lambda>s. fdiv (amp (water_obs_fit ols (date thisData) (tave_water_obs s)))
                       (amp (amp_phi ols (date thisData) (tave_air s) False))) (segments thisData)"
  defines "delPhi0 \<equiv> map (\<lambda>s. fdiv (fmul (fsub (phi (water_obs_fit ols (date thisData) (tave_water_obs s)))
                                   (phi (amp_phi ols (date thisData) (tave_air s) False)))
                             (Fin 365)) (Fin (2 * pi))) (segments thisData)"
  defines "s1 \<equiv> remove_Ar_above (Ar0, delPhi0)"
  defines "s2 \<equiv> remove_delPhi_below s1"
  defines "s3 \<equiv> reset_delPhi s2"
  shows "(Ar_obs T, delPhi_obs T) = s3
    \<and> (fgt (Ar0 ! i) (Fin 1.1) \<longrightarrow> fst s1 ! i = NaN \<and> snd s1 ! i = NaN)
    \<and> (flt (snd s1 ! i) (Fin (- 10)) \<longrightarrow> fst s2 ! i = NaN \<and> snd s2 ! i = NaN)
    \<and> (fle (Fin (- 10)) (snd s2 ! i) \<and> fle (snd s2 ! i) (Fin 0) \<longrightarrow>
          snd s3 ! i = Fin 0 \<and> fst s3 ! i = fst s2 ! i)
    \<and> (fgt (Ar0 ! i) (Fin 1.1) \<longrightarrow> Ar_obs T ! i = NaN \<and> delPhi_obs T ! i = NaN)
    \<and> (flt (delPhi0 ! i) (Fin (- 10)) \<longrightarrow> Ar_obs T ! i = NaN \<and> delPhi_obs T ! i = NaN)
    \<and> (fle (Ar0 ! i) (Fin 1.1) \<and> fle (Fin (- 10)) (delPhi0 ! i) \<and> fle (delPhi0 ! i) (Fin 0) \<longrightarrow>
          Ar_obs T ! i = Ar0 ! i \<and> delPhi_obs T ! i = Fin 0)
    \<and> (fle (Ar0 ! i) (Fin 1.1) \<and> fgt (delPhi0 ! i) (Fin 0) \<longrightarrow>
          Ar_obs T ! i = Ar0 ! i \<and> delPhi_obs T ! i = delPhi0 ! i)
    \<and> (isnan (Ar0 ! i) = isnan (delPhi0 ! i) \<longrightarrow>
          (Ar_obs T ! i, delPhi_obs T ! i) = rule_iii (rule_ii (rule_i (Ar0 ! i, delPhi0 ! i))))
    \<and> (Ar0 ! i = Fin 1.2 \<and> delPhi0 ! i = Fin 5 \<longrightarrow> Ar_obs T ! i = NaN \<and> delPhi_obs T ! i = NaN)
    \<and> (fle (Ar0 ! i) (Fin 1.1) \<and> delPhi0 ! i = Fin (- 3) \<longrightarrow>
          Ar_obs T ! i = Ar0 ! i \<and> delPhi_obs T ! i = Fin 0)"
proof -
  have len: "length Ar0 = length delPhi0" by (simp add: Ar0_def delPhi0_def)
  have i: "i < length Ar0" using assms(2) by (simp add: Ar0_def)
  have cols: "(Ar_obs T, delPhi_obs T) = plausibility_filter Ar0 delPhi0"
    unfolding Ar0_def delPhi0_def by (rule table_columns [OF assms(1)])
  then have A: "Ar_obs T = fst (plausibility_filter Ar0 delPhi0)"
    and D: "delPhi_obs T = snd (plausibility_filter Ar0 delPhi0)"
    by (simp_all add: prod_eq_iff)
  note steps = filter_steps_nth [OF len i, folded s1_def s2_def s3_def]
  note nth = plausibility_filter_nth [OF len i, folded A D]
  from steps cols have c0: "(Ar_obs T, delPhi_obs T) = s3" by simp
  from steps have c1: "fgt (Ar0 ! i) (Fin 1.1) \<longrightarrow> fst s1 ! i = NaN \<and> snd s1 ! i = NaN"
    and c2: "flt (snd s1 ! i) (Fin (- 10)) \<longrightarrow> fst s2 ! i = NaN \<and> snd s2 ! i = NaN"
    and c3: "fle (Fin (- 10)) (snd s2 ! i) \<and> fle (snd s2 ! i) (Fin 0) \<longrightarrow>
          snd s3 ! i = Fin 0 \<and> fst s3 ! i = fst s2 ! i"
    by blast+
  have c4: "fgt (Ar0 ! i) (Fin 1.1) \<longrightarrow> Ar_obs T ! i = NaN \<and> delPhi_obs T ! i = NaN"
    unfolding nth by (cases "Ar0 ! i") (simp_all add: fgt_def)
  have c5: "flt (delPhi0 ! i) (Fin (- 10)) \<longrightarrow> Ar_obs T ! i = NaN \<and> delPhi_obs T ! i = NaN"
    unfolding nth by (cases "delPhi0 ! i") (simp_all add: fge_def)
  have c6: "fle (Ar0 ! i) (Fin 1.1) \<and> fle (Fin (- 10)) (delPhi0 ! i) \<and> fle (delPhi0 ! i) (Fin 0) \<longrightarrow>
          Ar_obs T ! i = Ar0 ! i \<and> delPhi_obs T ! i = Fin 0"
    unfolding nth by (cases "delPhi0 ! i") (simp_all add: fge_def fgt_def)
  have c7: "fle (Ar0 ! i) (Fin 1.1) \<and> fgt (delPhi0 ! i) (Fin 0) \<longrightarrow>
          Ar_obs T ! i = Ar0 ! i \<and> delPhi_obs T ! i = delPhi0 ! i"
    unfolding nth by (cases "delPhi0 ! i") (simp_all add: fge_def fgt_def)
  have c8: "isnan (Ar0 ! i) = isnan (delPhi0 ! i) \<longrightarrow>
          (Ar_obs T ! i, delPhi_obs T ! i) = rule_iii (rule_ii (rule_i (Ar0 ! i, delPhi0 ! i)))"
    unfolding nth by (auto simp add: rules_composed)
  have c9: "Ar0 ! i = Fin 1.2 \<and> delPhi0 ! i = Fin 5 \<longrightarrow> Ar_obs T ! i = NaN \<and> delPhi_obs T ! i = NaN"
    unfolding nth by simp
  have c10: "fle (Ar0 ! i) (Fin 1.1) \<and> delPhi0 ! i = Fin (- 3) \<longrightarrow>
          Ar_obs T ! i = Ar0 ! i \<and> delPhi_obs T ! i = Fin 0"
    unfolding nth by (simp add: fge_def fgt_def)
  from c0 c1 c2 c3 c4 c5 c6 c7 c8 c9 c10 show ?thesis by blast
qed

text \<open>
  In the table of the three segments the first loses both values to the first step,
  the second keeps its ratio with the shift reset to \<open>0\<close>, and the third loses both
  values to the second step.
\<close>

theorem plausibility_rules_in_order_witness:
  "\<exists>T. annual_temp_stats marked_fit three_reaches = Inr T
     \<and> Ar_obs T ! 0 = NaN \<and> delPhi_obs T ! 0 = NaN
     \<and> Ar_obs T ! 1 = Fin 0.6 \<and> delPhi_obs T ! 1 = Fin 0
     \<and> Ar_obs T ! 2 = NaN \<and> delPhi_obs T ! 2 = NaN"
proof -
  from three_reaches_returns obtain T
    where T: "annual_temp_stats marked_fit three_reaches = Inr T" ..
  have i: "0 < length (segments three_reaches)" "1 < length (segments three_reaches)"
    "2 < length (segments three_reaches)"
    by (simp_all add: three_reaches_shape)
  from plausibility_rules_in_order [OF T i(1)]
  have r0: "Ar_obs T ! 0 = NaN \<and> delPhi_obs T ! 0 = NaN"
    unfolding three_reaches_raw by simp
  from plausibility_rules_in_order [OF T i(2)]
  have r1: "Ar_obs T ! 1 = Fin 0.6 \<and> delPhi_obs T ! 1 = Fin 0"
    unfolding three_reaches_raw by simp
  from plausibility_rules_in_order [OF T i(3)]
  have r2: "Ar_obs T ! 2 = NaN \<and> delPhi_obs T ! 2 = NaN"
    unfolding three_reaches_raw by simp
  from T r0 r1 r2 show ?thesis by blast
qed

text \<open>
  Claim C8, as the code has it. When the regression fails, \<open>amp_phi\<close> returns all six
  fields missing; nothing in it raises. The builder raises only \<open>ZeroDivisionError\<close>, and
  only when the air amplitude of some segment, or one of its two bounds, is exactly
  zero; and whenever one of them is zero it does raise, whatever the other fits are.
  In every table it returns, a segment whose water or air fit is missing has
  missing \<open>Ar\<close> and \<open>delPhi\<close> values and missing bounds, for the observed and for the
  modelled water alike.
\<close>

theorem failed_fit_is_missing_and_propagates:
  "(ols (if isWater then map (\<lambda>x. if fge x (Fin 1) \<and> fle x (Fin 45) then x else NaN) temp else temp)
        (map (\<lambda>j. (sin (2 * pi * j), cos (2 * pi * j))) (make_decimal_date Date)) = None
      \<longrightarrow> amp_phi ols Date temp isWater = all_missing)
   \<and> (annual_temp_stats ols thisData = Inl e \<longrightarrow>
        e = ZeroDivisionError \<and>
        (\<exists>k<length (segments thisData).
            amp (amp_phi ols (date thisData) (tave_air (segments thisData ! k)) False) = Fin 0
          \<or> amp_high (amp_phi ols (date thisData) (tave_air (segments thisData ! k)) False) = Fin 0
          \<or> amp_low (amp_phi ols (date thisData) (tave_air (segments thisData ! k)) False) = Fin 0))
   \<and> ((\<exists>k<length (segments thisData).
            amp (amp_phi ols (date thisData) (tave_air (segments thisData ! k)) False) = Fin 0
          \<or> amp_high (amp_phi ols (date thisData) (tave_air (segments thisData ! k)) False) = Fin 0
          \<or> amp_low (amp_phi ols (date thisData) (tave_air (segments thisData ! k)) False) = Fin 0) \<longrightarrow>
        annual_temp_stats ols thisData = Inl ZeroDivisionError)
   \<and> (annual_temp_stats ols thisData = Inr T \<and> i < length (segments thisData)
        \<and> (water_obs_fit ols (date thisData) (tave_water_obs (segments thisData ! i)) = all_missing
           \<or> amp_phi ols (date thisData) (tave_air (segments thisData ! i)) False = all_missing) \<longrightarrow>
        Ar_obs T ! i = NaN \<and> delPhi_obs T ! i = NaN
        \<and> Ar_low_obs T ! i = NaN \<and> Ar_high_obs T ! i = NaN
        \<and> delPhi_low_obs T ! i = NaN \<and> delPhi_high_obs T ! i = NaN)
   \<and> (annual_temp_stats ols thisData = Inr T \<and> i < length (segments thisData)
        \<and> (amp_phi ols (date thisData) (tave_water_pbm (segments thisData ! i)) True = all_missing
           \<or> amp_phi ols (date thisData) (tave_air (segments thisData ! i)) False = all_missing) \<longrightarrow>
        Ar_pbm T ! i = NaN \<and> delPhi_pbm T ! i = NaN)"
proof (intro conjI impI)
  assume "ols (if isWater then map (\<lambda>x. if fge x (Fin 1) \<and> fle x (Fin 45) then x else NaN) temp else temp)
        (map (\<lambda>j. (sin (2 * pi * j), cos (2 * pi * j))) (make_decimal_date Date)) = None"
  from amp_phi_None [of ols isWater temp Date, OF this]
  show "amp_phi ols Date temp isWater = all_missing" .
next
  assume "annual_temp_stats ols thisData = Inl e"
  from annual_temp_stats_Inl [OF this]
  show "e = ZeroDivisionError"
    and "\<exists>k<length (segments thisData).
            amp (amp_phi ols (date thisData) (tave_air (segments thisData ! k)) False) = Fin 0
          \<or> amp_high (amp_phi ols (date thisData) (tave_air (segments thisData ! k)) False) = Fin 0
          \<or> amp_low (amp_phi ols (date thisData) (tave_air (segments thisData ! k)) False) = Fin 0"
    by blast+
next
  assume "\<exists>k<length (segments thisData).
            amp (amp_phi ols (date thisData) (tave_air (segments thisData ! k)) False) = Fin 0
          \<or> amp_high (amp_phi ols (date thisData) (tave_air (segments thisData ! k)) False) = Fin 0
          \<or> amp_low (amp_phi ols (date thisData) (tave_air (segments thisData ! k)) False) = Fin 0"
  then obtain k where "k < length (segments thisData)"
    and "amp (amp_phi ols (date thisData) (tave_air (segments thisData ! k)) False) = Fin 0
          \<or> amp_high (amp_phi ols (date thisData) (tave_air (segments thisData ! k)) False) = Fin 0
          \<or> amp_low (amp_phi ols (date thisData) (tave_air (segments thisData ! k)) False) = Fin 0"
    by blast
  then show "annual_temp_stats ols thisData = Inl ZeroDivisionError"
    by (rule annual_temp_stats_zero_air)
next
  assume h: "annual_temp_stats ols thisData = Inr T \<and> i < length (segments thisData)
        \<and> (water_obs_fit ols (date thisData) (tave_water_obs (segments thisData ! i)) = all_missing
           \<or> amp_phi ols (date thisData) (tave_air (segments thisData ! i)) False = all_missing)"
  then have T: "annual_temp_stats ols thisData = Inr T" and i: "i < length (segments thisData)" by blast+
  note row = table_row [OF T i] and bounds = table_row_bounds [OF T i]
  from h show "Ar_obs T ! i = NaN" unfolding row(4)
    by (auto simp add: all_missing_def days_NaN fge_def fdiv_NaN_right)
  from h show "delPhi_obs T ! i = NaN" unfolding row(5)
    by (auto simp add: all_missing_def days_NaN fge_def fdiv_NaN_right)
  from h show "Ar_low_obs T ! i = NaN" unfolding bounds(1)
    by (auto simp add: all_missing_def fdiv_NaN_right)
  from h show "Ar_high_obs T ! i = NaN" unfolding bounds(2)
    by (auto simp add: all_missing_def fdiv_NaN_right)
  from h show "delPhi_low_obs T ! i = NaN" unfolding bounds(3)
    by (auto simp add: all_missing_def days_NaN)
  from h show "delPhi_high_obs T ! i = NaN" unfolding bounds(4)
    by (auto simp add: all_missing_def days_NaN)
next
  assume h: "annual_temp_stats ols thisData = Inr T \<and> i < length (segments thisData)
        \<and> (amp_phi ols (date thisData) (tave_water_pbm (segments thisData ! i)) True = all_missing
           \<or> amp_phi ols (date thisData) (tave_air (segments thisData ! i)) False = all_missing)"
  then have T: "annual_temp_stats ols thisData = Inr T" and i: "i < length (segments thisData)" by blast+
  note bounds = table_row_bounds [OF T i]
  from h show "Ar_pbm T ! i = NaN" unfolding bounds(5)
    by (auto simp add: all_missing_def fdiv_NaN_right)
  from h show "delPhi_pbm T ! i = NaN" unfolding bounds(6)
    by (auto simp add: all_missing_def days_NaN)
qed

text \<open>
  The claim as it is written fails where a missing water result meets an air amplitude
  of zero: the division of the two Python floats raises.
\<close>

theorem missing_fit_division_raises:
  "water_obs_fit zero_fit (date still_air) (tave_water_obs (segments still_air ! 0)) = all_missing
   \<and> annual_temp_stats zero_fit still_air = Inl ZeroDivisionError"
  by (simp only: still_air_water_missing still_air_raises simp_thms)

theorem failed_fit_is_missing_and_propagates_witness:
  "amp_phi zero_fit (date still_air) [Fin 0, Fin 0, Fin 0, Fin 0, Fin 0] True = all_missing
   \<and> (\<exists>k<length (segments still_air).
            amp (amp_phi zero_fit (date still_air) (tave_air (segments still_air ! k)) False) = Fin 0
          \<or> amp_high (amp_phi zero_fit (date still_air) (tave_air (segments still_air ! k)) False) = Fin 0
          \<or> amp_low (amp_phi zero_fit (date still_air) (tave_air (segments still_air ! k)) False) = Fin 0)
   \<and> annual_temp_stats zero_fit still_air = Inl ZeroDivisionError
   \<and> (\<exists>T. annual_temp_stats steady_fit year_and_a_day = Inr T
        \<and> Ar_obs T ! 1 = NaN \<and> delPhi_obs T ! 1 = NaN
        \<and> Ar_low_obs T ! 1 = NaN \<and> Ar_high_obs T ! 1 = NaN
        \<and> delPhi_low_obs T ! 1 = NaN \<and> delPhi_high_obs T ! 1 = NaN)"
proof -
  have none: "zero_fit (if True then map (\<lambda>x. if fge x (Fin 1) \<and> fle x (Fin 45) then x else NaN)
                                      [Fin 0, Fin 0, Fin 0, Fin 0, Fin 0]
                        else [Fin 0, Fin 0, Fin 0, Fin 0, Fin 0])
        (map (\<lambda>j. (sin (2 * pi * j), cos (2 * pi * j))) (make_decimal_date (date still_air))) = None"
    by (simp add: zero_fit_def fge_def)
  from failed_fit_is_missing_and_propagates
    [of zero_fit True "[Fin 0, Fin 0, Fin 0, Fin 0, Fin 0]" "date still_air" still_air ZeroDivisionError]
    none still_air_raises
  have 1: "amp_phi zero_fit (date still_air) [Fin 0, Fin 0, Fin 0, Fin 0, Fin 0] True = all_missing"
    and 2: "\<exists>k<length (segments still_air).
            amp (amp_phi zero_fit (date still_air) (tave_air (segments still_air ! k)) False) = Fin 0
          \<or> amp_high (amp_phi zero_fit (date still_air) (tave_air (segments still_air ! k)) False) = Fin 0
          \<or> amp_low (amp_phi zero_fit (date still_air) (tave_air (segments still_air ! k)) False) = Fin 0"
    by blast+
  have k: "0 < length (segments still_air)" by (simp add: still_air_def)
  from failed_fit_is_missing_and_propagates [of zero_fit False "[]" "[]" still_air ZeroDivisionError]
    k still_air_amp
  have 4: "annual_temp_stats zero_fit still_air = Inl ZeroDivisionError"
    by blast
  from year_and_a_day_table obtain T where T: "annual_temp_stats steady_fit year_and_a_day = Inr T" by blast
  have i: "1 < length (segments year_and_a_day)" by (simp add: year_and_a_day_def)
  have w: "water_obs_fit steady_fit (date year_and_a_day) (tave_water_obs (segments year_and_a_day ! 1)) = all_missing"
    by (simp add: year_and_a_day_def water_obs_fit_no_data)
  from failed_fit_is_missing_and_propagates
    [of steady_fit False "[]" "[]" year_and_a_day ZeroDivisionError T 1] T i w
  have 3: "Ar_obs T ! 1 = NaN \<and> delPhi_obs T ! 1 = NaN
        \<and> Ar_low_obs T ! 1 = NaN \<and> Ar_high_obs T ! 1 = NaN
        \<and> delPhi_low_obs T ! 1 = NaN \<and> delPhi_high_obs T ! 1 = NaN"
    by blast
  from 1 2 3 4 T show ?thesis by blast
qed

lemma rss_nonneg: "0 \<le> rss c a b rows"
  unfolding rss_def by (induction rows) auto

lemma rss_zero_iff: "rss c a b rows = 0 \<longleftrightarrow> (\<forall>(v, s, k) \<in> set rows. v = c + a * s + b * k)"
  unfolding rss_def by (induction rows) (auto simp add: add_nonneg_eq_0_iff rss_nonneg [unfolded rss_def])

lemma fitted_rows_sinusoid:
  "(v, s, k) \<in> set (fitted_rows (sinusoid c a b Date)
        (map (\<lambda>j. (sin (2 * pi * j), cos (2 * pi * j))) (make_decimal_date Date)))
   \<Longrightarrow> v = c + a * s + b * k"
  by (auto simp add: fitted_rows_def sinusoid_def zip_map_map set_zip)

lemma least_squares_exact:
  assumes ls: "least_squares r temp x"
    and exact: "\<forall>(v, s, k) \<in> set (fitted_rows temp x). v = c0 + a0 * s + b0 * k"
    and rank: "full_rank (fitted_rows temp x)"
  shows "params r = (Fin c0, Fin a0, Fin b0)"
proof -
  from ls obtain c a b where p: "params r = (Fin c, Fin a, Fin b)"
    and m: "\<forall>c' a' b'. rss c a b (fitted_rows temp x) \<le> rss c' a' b' (fitted_rows temp x)"
    unfolding least_squares_def by blast
  have "rss c0 a0 b0 (fitted_rows temp x) = 0" using exact by (simp add: rss_zero_iff)
  with m have "rss c a b (fitted_rows temp x) \<le> 0" by metis
  with rss_nonneg [of c a b "fitted_rows temp x"] have "rss c a b (fitted_rows temp x) = 0" by simp
  then have fit: "\<forall>(v, s, k) \<in> set (fitted_rows temp x). v = c + a * s + b * k"
    by (simp add: rss_zero_iff)
  have "\<forall>(v, s, k) \<in> set (fitted_rows temp x). (c - c0) + (a - a0) * s + (b - b0) * k = 0"
  proof (clarify)
    fix v s k assume in_rows: "(v, s, k) \<in> set (fitted_rows temp x)"
    with fit have 1: "v = c + a * s + b * k" by blast
    from in_rows exact have 2: "v = c0 + a0 * s + b0 * k" by blast
    from 1 2 show "(c - c0) + (a - a0) * s + (b - b0) * k = 0" by (simp add: algebra_simps)
  qed
  with rank have "c - c0 = 0 \<and> a - a0 = 0 \<and> b - b0 = 0"
    unfolding full_rank_def by blast
  with p show ?thesis by simp
qed

lemma sqrt_3_4: "sqrt (3 * 3 + 4 * 4) = (5 :: real)"
proof -
  have "sqrt (3 * 3 + 4 * 4) = sqrt (5\<^sup>2 :: real)" by simp
  also have "\<dots> = 5" by simp
  finally show ?thesis .
qed

text \<open>
  Claim C4. When the regression returns the coefficients \<open>(a, b)\<close> of sine and cosine,
  \<open>amp_phi\<close> returns the amplitude \<open>sqrt (a^2 + b^2)\<close> and the phase
  \<open>3 pi / 2 - atan (b / a)\<close>: in the arithmetic of the code for any coefficients, and as
  real numbers when \<open>a\<close> is not zero. For the series
  \<open>T(t) = 5 + 3 sin(2 pi t) + 4 cos(2 pi t)\<close> on dates that give the design full rank, a
  least-squares fit makes the amplitude \<open>5\<close> and the phase \<open>3 pi / 2 - atan (4 / 3)\<close>.
\<close>

theorem harmonic_amplitude_phase:
  "(ols (if isWater then map (\<lambda>x. if fge x (Fin 1) \<and> fle x (Fin 45) then x else NaN) temp else temp)
        (map (\<lambda>j. (sin (2 * pi * j), cos (2 * pi * j))) (make_decimal_date Date)) = Some r
     \<and> params r = (p0, p1, p2) \<longrightarrow>
       amp (amp_phi ols Date temp isWater) = fsqrt (fadd (square p1) (square p2))
     \<and> phi (amp_phi ols Date temp isWater) = fsub (Fin (3 * pi / 2)) (fatan (fdiv p2 p1)))
   \<and> (ols (if isWater then map (\<lambda>x. if fge x (Fin 1) \<and> fle x (Fin 45) then x else NaN) temp else temp)
        (map (\<lambda>j. (sin (2 * pi * j), cos (2 * pi * j))) (make_decimal_date Date)) = Some r
     \<and> params r = (p0, Fin a, Fin b) \<and> a \<noteq> 0 \<longrightarrow>
       amp (amp_phi ols Date temp isWater) = Fin (sqrt (a\<^sup>2 + b\<^sup>2))
     \<and> phi (amp_phi ols Date temp isWater) = Fin (3 * pi / 2 - arctan (b / a)))
   \<and> (ols (sinusoid 5 3 4 Date) (map (\<lambda>j. (sin (2 * pi * j), cos (2 * pi * j))) (make_decimal_date Date)) = Some r
     \<and> least_squares r (sinusoid 5 3 4 Date) (map (\<lambda>j. (sin (2 * pi * j), cos (2 * pi * j))) (make_decimal_date Date))
     \<and> full_rank (fitted_rows (sinusoid 5 3 4 Date)
          (map (\<lambda>j. (sin (2 * pi * j), cos (2 * pi * j))) (make_decimal_date Date))) \<longrightarrow>
       amp (amp_phi ols Date (sinusoid 5 3 4 Date) False) = Fin 5
     \<and> phi (amp_phi ols Date (sinusoid 5 3 4 Date) False) = Fin (3 * pi / 2 - arctan (4 / 3)))"
proof (intro conjI impI)
  assume h: "ols (if isWater then map (\<lambda>x. if fge x (Fin 1) \<and> fle x (Fin 45) then x else NaN) temp else temp)
        (map (\<lambda>j. (sin (2 * pi * j), cos (2 * pi * j))) (make_decimal_date Date)) = Some r
     \<and> params r = (p0, p1, p2)"
  then have S: "ols (if isWater then map (\<lambda>x. if fge x (Fin 1) \<and> fle x (Fin 45) then x else NaN) temp else temp)
        (map (\<lambda>j. (sin (2 * pi * j), cos (2 * pi * j))) (make_decimal_date Date)) = Some r"
    and p: "params r = (p0, p1, p2)" by blast+
  from amp_phi_Some [of ols isWater temp Date r p0 p1 p2, OF S p]
  show "amp (amp_phi ols Date temp isWater) = fsqrt (fadd (square p1) (square p2))"
    and "phi (amp_phi ols Date temp isWater) = fsub (Fin (3 * pi / 2)) (fatan (fdiv p2 p1))"
    by blast+
next
  assume h: "ols (if isWater then map (\<lambda>x. if fge x (Fin 1) \<and> fle x (Fin 45) then x else NaN) temp else temp)
        (map (\<lambda>j. (sin (2 * pi * j), cos (2 * pi * j))) (make_decimal_date Date)) = Some r
     \<and> params r = (p0, Fin a, Fin b) \<and> a \<noteq> 0"
  then have S: "ols (if isWater then map (\<lambda>x. if fge x (Fin 1) \<and> fle x (Fin 45) then x else NaN) temp else temp)
        (map (\<lambda>j. (sin (2 * pi * j), cos (2 * pi * j))) (make_decimal_date Date)) = Some r"
    and p: "params r = (p0, Fin a, Fin b)" and a: "a \<noteq> 0" by blast+
  note ap = amp_phi_Some [of ols isWater temp Date r p0 "Fin a" "Fin b", OF S p]
  show "amp (amp_phi ols Date temp isWater) = Fin (sqrt (a\<^sup>2 + b\<^sup>2))"
    by (simp add: ap(1) square_def power2_eq_square)
  show "phi (amp_phi ols Date temp isWater) = Fin (3 * pi / 2 - arctan (b / a))"
    using a by (simp add: ap(2) fsub_Fin)
next
  let ?x = "map (\<lambda>j. (sin (2 * pi * j), cos (2 * pi * j))) (make_decimal_date Date)"
  assume h: "ols (sinusoid 5 3 4 Date) ?x = Some r
     \<and> least_squares r (sinusoid 5 3 4 Date) ?x
     \<and> full_rank (fitted_rows (sinusoid 5 3 4 Date) ?x)"
  then have S: "ols (if False then map (\<lambda>x. if fge x (Fin 1) \<and> fle x (Fin 45) then x else NaN) (sinusoid 5 3 4 Date)
                     else sinusoid 5 3 4 Date) ?x = Some r"
    and ls: "least_squares r (sinusoid 5 3 4 Date) ?x"
    and rank: "full_rank (fitted_rows (sinusoid 5 3 4 Date) ?x)" by simp_all
  have exact: "\<forall>(v, s, k) \<in> set (fitted_rows (sinusoid 5 3 4 Date) ?x). v = 5 + 3 * s + 4 * k"
    using fitted_rows_sinusoid [of _ _ _ 5 3 4 Date] by blast
  from least_squares_exact [OF ls exact rank] have p: "params r = (Fin 5, Fin 3, Fin 4)" .
  note ap = amp_phi_Some [of ols False "sinusoid 5 3 4 Date" Date r "Fin 5" "Fin 3" "Fin 4", OF S p]
  show "amp (amp_phi ols Date (sinusoid 5 3 4 Date) False) = Fin 5"
    by (simp add: ap(1) square_def sqrt_3_4)
  show "phi (amp_phi ols Date (sinusoid 5 3 4 Date) False) = Fin (3 * pi / 2 - arctan (4 / 3))"
    by (simp add: ap(2) fsub_Fin)
qed

lemma exact_is_least_squares:
  assumes "params r = (Fin c, Fin a, Fin b)"
  shows "least_squares r (sinusoid c a b Date)
           (map (\<lambda>j. (sin (2 * pi * j), cos (2 * pi * j))) (make_decimal_date Date))"
proof -
  let ?rows = "fitted_rows (sinusoid c a b Date)
           (map (\<lambda>j. (sin (2 * pi * j), cos (2 * pi * j))) (make_decimal_date Date))"
  have "rss c a b ?rows = 0"
    unfolding rss_zero_iff using fitted_rows_sinusoid [of _ _ _ c a b Date] by blast
  then have "\<forall>c' a' b'. rss c a b ?rows \<le> rss c' a' b' ?rows" by (simp add: rss_nonneg)
  with assms show ?thesis unfolding least_squares_def by blast
qed

lemma quarter_decimal: "make_decimal_date quarter_dates = [0, 1 / 4, 1 / 2]"
  by (simp add: make_decimal_date_def quarter_dates_def)

lemma quarter_rows:
  "fitted_rows (sinusoid 5 3 4 quarter_dates)
     (map (\<lambda>j. (sin (2 * pi * j), cos (2 * pi * j))) (make_decimal_date quarter_dates))
     = [(9, 0, 1), (8, 1, 0), (1, 0, - 1)]"
  by (simp add: fitted_rows_def sinusoid_def quarter_decimal)

lemma quarter_full_rank:
  "full_rank (fitted_rows (sinusoid 5 3 4 quarter_dates)
     (map (\<lambda>j. (sin (2 * pi * j), cos (2 * pi * j))) (make_decimal_date quarter_dates)))"
  unfolding quarter_rows full_rank_def by auto

theorem harmonic_amplitude_phase_witness:
  "sinusoid 5 3 4 quarter_dates = [Fin 9, Fin 8, Fin 1]
   \<and> amp (amp_phi sinusoid_fit quarter_dates (sinusoid 5 3 4 quarter_dates) False) = Fin 5
   \<and> phi (amp_phi sinusoid_fit quarter_dates (sinusoid 5 3 4 quarter_dates) False)
        = Fin (3 * pi / 2 - arctan (4 / 3))
   \<and> amp (amp_phi sinusoid_fit quarter_dates (sinusoid 5 3 4 quarter_dates) False)
        = fsqrt (fadd (square (Fin 3)) (square (Fin 4)))
   \<and> amp (amp_phi sinusoid_fit quarter_dates (sinusoid 5 3 4 quarter_dates) False)
        = Fin (sqrt (3\<^sup>2 + 4\<^sup>2))"
proof -
  let ?r = "\<lparr>params = (Fin 5, Fin 3, Fin 4),
           conf_int = ((Fin 5, Fin 5), (Fin 3, Fin 3), (Fin 4, Fin 4))\<rparr>"
  let ?x = "map (\<lambda>j. (sin (2 * pi * j), cos (2 * pi * j))) (make_decimal_date quarter_dates)"
  have v: "sinusoid 5 3 4 quarter_dates = [Fin 9, Fin 8, Fin 1]"
    by (simp add: sinusoid_def quarter_decimal)
  have S: "sinusoid_fit (sinusoid 5 3 4 quarter_dates) ?x = Some ?r"
    by (simp add: sinusoid_fit_def)
  have S': "sinusoid_fit (if False then map (\<lambda>x. if fge x (Fin 1) \<and> fle x (Fin 45) then x else NaN)
                (sinusoid 5 3 4 quarter_dates) else sinusoid 5 3 4 quarter_dates) ?x = Some ?r"
    by (simp add: sinusoid_fit_def)
  have p: "params ?r = (Fin 5, Fin 3, Fin 4)" by simp
  have nz: "(3 :: real) \<noteq> 0" by simp
  have ls: "least_squares ?r (sinusoid 5 3 4 quarter_dates) ?x"
    by (rule exact_is_least_squares) simp
  note inst = harmonic_amplitude_phase [of sinusoid_fit False "sinusoid 5 3 4 quarter_dates"
      quarter_dates ?r "Fin 5" "Fin 3" "Fin 4" 3 4]
  from inst S ls quarter_full_rank
  have 1: "amp (amp_phi sinusoid_fit quarter_dates (sinusoid 5 3 4 quarter_dates) False) = Fin 5
   \<and> phi (amp_phi sinusoid_fit quarter_dates (sinusoid 5 3 4 quarter_dates) False)
        = Fin (3 * pi / 2 - arctan (4 / 3))"
    by blast
  from inst S' p
  have 2: "amp (amp_phi sinusoid_fit quarter_dates (sinusoid 5 3 4 quarter_dates) False)
        = fsqrt (fadd (square (Fin 3)) (square (Fin 4)))"
    by blast
  from inst S' p nz
  have 3: "amp (amp_phi sinusoid_fit quarter_dates (sinusoid 5 3 4 quarter_dates) False)
        = Fin (sqrt (3\<^sup>2 + 4\<^sup>2))"
    by blast
  from v 1 2 3 show ?thesis by blast
qed

section \<open>Properties of the batched regression and of the composite loss\<close>







lemma then_err_simps: "then_err (Inr v) f = f v" "then_err (Inl e) f = Inl e"
  by (simp_all add: then_err_def)






section \<open>The batched regression on an exact sinusoid\<close>

lemma bil_add_left: "bil T P (\<lambda>l. f l + f' l) h = bil T P f h + bil T P f' h"
  by (simp add: bil_def algebra_simps sum.distrib)

lemma bil_add_right: "bil T P f (\<lambda>q. h q + h' q) = bil T P f h + bil T P f h'"
  by (simp add: bil_def algebra_simps sum.distrib)

lemma bil_scale_left: "bil T P (\<lambda>l. r * f l) h = r * bil T P f h"
  by (simp add: bil_def sum_distrib_left mult.assoc)

lemma bil_scale_right: "bil T P f (\<lambda>q. r * h q) = r * bil T P f h"
  by (simp add: bil_def sum_distrib_left algebra_simps)

lemma bil_gram:
  "bil T P (\<lambda>l. 1 + si * s l + ki * k l) (\<lambda>q. 1 + sm * s q + km * k q)
     = (bil T P (\<lambda>l. 1) (\<lambda>q. 1) + sm * bil T P (\<lambda>l. 1) s + km * bil T P (\<lambda>l. 1) k)
     + si * (bil T P s (\<lambda>q. 1) + sm * bil T P s s + km * bil T P s k)
     + ki * (bil T P k (\<lambda>q. 1) + sm * bil T P k s + km * bil T P k k)"
  by (simp add: bil_add_left bil_add_right bil_scale_left bil_scale_right algebra_simps)

lemma bil_cong:
  "(\<And>i. i < T \<Longrightarrow> f i = f' i) \<Longrightarrow> (\<And>i. i < T \<Longrightarrow> h i = h' i) \<Longrightarrow> bil T P f h = bil T P f' h'"
  by (simp add: bil_def)

lemma ginv_identity:
  fixes s k :: "nat \<Rightarrow> real"
  assumes mp: "\<And>i m. i < T \<Longrightarrow> m < T \<Longrightarrow>
      bil T P (\<lambda>l. 1 + s i * s l + k i * k l) (\<lambda>q. 1 + s m * s q + k m * k q)
        = 1 + s i * s m + k i * k m"
    and rank: "\<And>u v w. (\<forall>i<T. u + v * s i + w * k i = 0) \<Longrightarrow> u = 0 \<and> v = 0 \<and> w = 0"
  shows "bil T P (\<lambda>l. 1) (\<lambda>q. 1) = 1 \<and> bil T P (\<lambda>l. 1) s = 0 \<and> bil T P (\<lambda>l. 1) k = 0
       \<and> bil T P s (\<lambda>q. 1) = 0 \<and> bil T P s s = 1 \<and> bil T P s k = 0
       \<and> bil T P k (\<lambda>q. 1) = 0 \<and> bil T P k s = 0 \<and> bil T P k k = 1"
proof -
  define n00 where "n00 = bil T P (\<lambda>l. 1) (\<lambda>q. 1)"
  define n01 where "n01 = bil T P (\<lambda>l. 1) s"
  define n02 where "n02 = bil T P (\<lambda>l. 1) k"
  define n10 where "n10 = bil T P s (\<lambda>q. 1)"
  define n11 where "n11 = bil T P s s"
  define n12 where "n12 = bil T P s k"
  define n20 where "n20 = bil T P k (\<lambda>q. 1)"
  define n21 where "n21 = bil T P k s"
  define n22 where "n22 = bil T P k k"
  have eq: "(n00 + s m * n01 + k m * n02) + s i * (n10 + s m * n11 + k m * n12)
            + k i * (n20 + s m * n21 + k m * n22) = 1 + s i * s m + k i * k m"
    if "i < T" "m < T" for i m
    using mp [OF that] unfolding bil_gram n00_def n01_def n02_def n10_def n11_def n12_def n20_def n21_def n22_def .
  have stepA: "n00 + s m * n01 + k m * n02 - 1 = 0 \<and> n10 + s m * n11 + k m * n12 - s m = 0
             \<and> n20 + s m * n21 + k m * n22 - k m = 0" if m: "m < T" for m
  proof (rule rank, intro allI impI)
    fix i assume "i < T"
    from eq [OF this m]
    show "(n00 + s m * n01 + k m * n02 - 1) + (n10 + s m * n11 + k m * n12 - s m) * s i
            + (n20 + s m * n21 + k m * n22 - k m) * k i = 0"
      by (simp add: algebra_simps)
  qed
  have r0: "n00 - 1 = 0 \<and> n01 = 0 \<and> n02 = 0"
  proof (rule rank, intro allI impI)
    fix m assume "m < T"
    from stepA [OF this] show "(n00 - 1) + n01 * s m + n02 * k m = 0" by (simp add: algebra_simps)
  qed
  have r1: "n10 = 0 \<and> n11 - 1 = 0 \<and> n12 = 0"
  proof (rule rank, intro allI impI)
    fix m assume "m < T"
    from stepA [OF this] show "n10 + (n11 - 1) * s m + n12 * k m = 0" by (simp add: algebra_simps)
  qed
  have r2: "n20 = 0 \<and> n21 = 0 \<and> n22 - 1 = 0"
  proof (rule rank, intro allI impI)
    fix m assume "m < T"
    from stepA [OF this] show "n20 + n21 * s m + (n22 - 1) * k m = 0" by (simp add: algebra_simps)
  qed
  from r0 r1 r2 show ?thesis
    unfolding n00_def n01_def n02_def n10_def n11_def n12_def n20_def n21_def n22_def by simp
qed

lemma ginv_recovers:
  fixes s k y :: "nat \<Rightarrow> real"
  assumes mp: "\<And>i m. i < T \<Longrightarrow> m < T \<Longrightarrow>
      bil T P (\<lambda>l. 1 + s i * s l + k i * k l) (\<lambda>q. 1 + s m * s q + k m * k q)
        = 1 + s i * s m + k i * k m"
    and rank: "\<And>u v w. (\<forall>i<T. u + v * s i + w * k i = 0) \<Longrightarrow> u = 0 \<and> v = 0 \<and> w = 0"
    and y: "\<And>i. i < T \<Longrightarrow> y i = c + a * s i + b * k i"
  shows "bil T P y (\<lambda>q. 1) = c" and "bil T P y s = a" and "bil T P y k = b"
proof -
  note id = ginv_identity [OF mp rank]
  have e: "bil T P y h = c * bil T P (\<lambda>l. 1) h + a * bil T P s h + b * bil T P k h" for h
  proof -
    have "bil T P y h = bil T P (\<lambda>i. c * 1 + (a * s i + b * k i)) h"
      by (rule bil_cong) (simp_all add: y)
    also have "\<dots> = c * bil T P (\<lambda>l. 1) h + a * bil T P s h + b * bil T P k h"
      by (simp only: bil_add_left bil_scale_left add.assoc)
    finally show ?thesis .
  qed
  show "bil T P y (\<lambda>q. 1) = c" using id by (simp add: e)
  show "bil T P y s = a" using id by (simp add: e)
  show "bil T P y k = b" using id by (simp add: e)
qed

lemma map2_Fin: "map2 fmul (map Fin u) (map Fin v) = map Fin (map2 (*) u v)"
  by (induction u arbitrary: v) (auto simp add: Cons_eq_map_conv split: list.splits, case_tac v, auto)

lemma dot_Fin: "dot (map Fin u) (map Fin v) = Fin (rdot u v)"
  by (simp add: dot_def rdot_def map2_Fin reduce_sum_Fin del: map_map)

lemma matmul_Fin: "matmul (map (map Fin) A) (map (map Fin) B) = map (map Fin) (rmatmul A B)"
  by (simp add: matmul_def rmatmul_def transpose_map_map dot_Fin o_def)

lemma transpose_rows3: "transpose [map f x, map g x, map h x] = map (\<lambda>r. [f r, g r, h r]) x"
  by (induction x) (simp_all add: transpose.simps)

lemma transpose_cols3:
  assumes "x \<noteq> []"
  shows "transpose (map (\<lambda>r. [f r, g r, h r]) x) = [map f x, map g x, map h x]"
proof -
  have "transpose (map (\<lambda>r. [f r, g r, h r]) x) = transpose (transpose [map f x, map g x, map h x])"
    by (simp only: transpose_rows3)
  also have "\<dots> = takeWhile (\<lambda>r. r \<noteq> []) [map f x, map g x, map h x]"
    by (rule transpose_transpose) simp
  also have "\<dots> = [map f x, map g x, map h x]" using assms by simp
  finally show ?thesis .
qed

lemma transpose_column:
  assumes "ys \<noteq> []"
  shows "transpose (map (\<lambda>v. [v]) ys) = [ys]"
proof -
  have r: "transpose [ys] = map (\<lambda>v. [v]) ys" by (induction ys) (simp_all add: transpose.simps)
  have "transpose (map (\<lambda>v. [v]) ys) = transpose (transpose [ys])" by (simp only: r)
  also have "\<dots> = takeWhile (\<lambda>r. r \<noteq> []) [ys]" by (rule transpose_transpose) simp
  also have "\<dots> = [ys]" using assms by simp
  finally show ?thesis .
qed

lemma rdot_sum:
  assumes "length u = T" and "length v = T"
  shows "rdot u v = (\<Sum>l<T. u ! l * v ! l)"
proof -
  have "map2 (*) u v = map (\<lambda>l. u ! l * v ! l) [0..<T]"
    using assms by (intro nth_equalityI) simp_all
  then have "rdot u v = sum_list (map (\<lambda>l. u ! l * v ! l) [0..<T])" by (simp add: rdot_def)
  also have "\<dots> = (\<Sum>l<T. u ! l * v ! l)"
    by (simp add: interv_sum_list_conv_sum_set_nat lessThan_atLeast0)
  finally show ?thesis .
qed

lemma sequence_err_all_Inr: "sequence_err (map (\<lambda>z. Inr (f z)) zs) = Inr (map f zs)"
  by (induction zs) simp_all

lemma channel_pairs:
  "channel [map (\<lambda>(sn, cs). [Fin sn, Fin cs]) x] 0 = Inr [map (\<lambda>(sn, cs). Fin sn) x]"
  "channel [map (\<lambda>(sn, cs). [Fin sn, Fin cs]) x] 1 = Inr [map (\<lambda>(sn, cs). Fin cs) x]"
proof -
  have 0: "map (\<lambda>row. item row 0) (map (\<lambda>(sn, cs). [Fin sn, Fin cs]) x)
             = map (\<lambda>z. Inr ((\<lambda>(sn, cs). Fin sn) z)) x"
    by (auto simp add: item_def)
  have 1: "map (\<lambda>row. item row 1) (map (\<lambda>(sn, cs). [Fin sn, Fin cs]) x)
             = map (\<lambda>z. Inr ((\<lambda>(sn, cs). Fin cs) z)) x"
    by (auto simp add: item_def)
  show "channel [map (\<lambda>(sn, cs). [Fin sn, Fin cs]) x] 0 = Inr [map (\<lambda>(sn, cs). Fin sn) x]"
    unfolding channel_def by (simp only: list.map 0 sequence_err_all_Inr) simp
  show "channel [map (\<lambda>(sn, cs). [Fin sn, Fin cs]) x] 1 = Inr [map (\<lambda>(sn, cs). Fin cs) x]"
    unfolding channel_def by (simp only: list.map 1 sequence_err_all_Inr) simp
qed

lemma rdot3: "rdot [a1, a2, a3] [b1, b2, b3] = a1 * b1 + a2 * b2 + a3 * b3"
  by (simp add: rdot_def)

lemma gram_rows:
  "rmatmul (map (\<lambda>r. [1, fst r, snd r]) x) [map (\<lambda>r. 1) x, map fst x, map snd x] = gram x"
  by (simp add: rmatmul_def transpose_rows3 gram_def rdot3 case_prod_beta o_def)

lemma GW_amp_phase_single:
  assumes ne: "x \<noteq> []" and len: "ys \<noteq> []"
    and pinv: "pinv (map (map Fin) (gram x)) = map (map Fin) P" and Pne: "P \<noteq> []"
  shows "GW_amp_phase pinv [map (\<lambda>(sn, cs). [Fin sn, Fin cs]) x] [map (\<lambda>v. [Fin v]) ys]
    = Inr ([fsqrt (fadd (square (Fin (rdot (map (\<lambda>row. rdot row (map fst x)) P) ys)))
                        (square (Fin (rdot (map (\<lambda>row. rdot row (map snd x)) P) ys))))],
           [fsub (Fin (3 * pi / 2))
              (fatan (fdiv (Fin (rdot (map (\<lambda>row. rdot row (map snd x)) P) ys))
                           (Fin (rdot (map (\<lambda>row. rdot row (map fst x)) P) ys))))])"
proof -
  let ?X = "[map (\<lambda>r. 1) x, map fst x, map snd x]"
  let ?D = "map (\<lambda>r. [1, fst r, snd r]) x"
  let ?PD = "map (\<lambda>row. [rdot row (map (\<lambda>r. 1) x), rdot row (map fst x), rdot row (map snd x)]) P"
  let ?cols = "[map (\<lambda>row. rdot row (map (\<lambda>r. 1) x)) P, map (\<lambda>row. rdot row (map fst x)) P,
                map (\<lambda>row. rdot row (map snd x)) P]"
  have Xm: "[map (\<lambda>v. Fin 1) (map (\<lambda>(sn, cs). Fin sn) x), map (\<lambda>(sn, cs). Fin sn) x,
             map (\<lambda>(sn, cs). Fin cs) x] = map (map Fin) ?X"
    by (simp add: case_prod_beta o_def)
  have XT: "transpose (map (map Fin) ?X) = map (map Fin) ?D"
    by (simp only: transpose_map_map transpose_rows3)
  have G: "matmul (map (map Fin) ?D) (map (map Fin) ?X) = map (map Fin) (gram x)"
    by (simp only: matmul_Fin gram_rows)
  have PD: "matmul (map (map Fin) P) (map (map Fin) ?D) = map (map Fin) ?PD"
    by (simp only: matmul_Fin) (simp add: rmatmul_def transpose_cols3 [OF ne])
  have PDT: "transpose (map (map Fin) ?PD) = map (map Fin) ?cols"
    by (simp only: transpose_map_map transpose_cols3 [OF Pne])
  have Y: "map (\<lambda>v. [Fin v]) ys = map (map Fin) (map (\<lambda>v. [v]) ys)" by simp
  have ab: "matmul (map (map Fin) ?cols) (map (map Fin) (map (\<lambda>v. [v]) ys))
      = [[Fin (rdot (map (\<lambda>row. rdot row (map (\<lambda>r. 1) x)) P) ys)],
         [Fin (rdot (map (\<lambda>row. rdot row (map fst x)) P) ys)],
         [Fin (rdot (map (\<lambda>row. rdot row (map snd x)) P) ys)]]"
    by (simp only: matmul_Fin) (simp add: rmatmul_def transpose_column [OF len])
  show ?thesis
    apply (simp only: GW_amp_phase_def channel_pairs then_err_simps Let_def list.map
        zip_Cons_Cons zip_Nil prod.case)
    apply (simp only: Xm XT G pinv PD PDT Y ab)
    apply (simp add: index2_def item_def then_err_simps)
    done
qed

lemma rdot_bil:
  assumes P: "length P = T" "\<forall>row \<in> set P. length row = T" and h: "length h = T" and ys: "length ys = T"
  shows "rdot (map (\<lambda>row. rdot row h) P) ys = bil T (\<lambda>i l. P ! i ! l) (\<lambda>i. ys ! i) (\<lambda>l. h ! l)"
proof -
  have "rdot (map (\<lambda>row. rdot row h) P) ys = (\<Sum>i<T. map (\<lambda>row. rdot row h) P ! i * ys ! i)"
    by (rule rdot_sum) (simp_all add: P ys)
  also have "\<dots> = (\<Sum>i<T. (\<Sum>l<T. P ! i ! l * h ! l) * ys ! i)"
  proof (rule sum.cong [OF refl])
    fix i assume "i \<in> {..<T}"
    then have i: "i < length P" by (simp add: P)
    then have "length (P ! i) = T" using P(2) by simp
    then have "rdot (P ! i) h = (\<Sum>l<T. P ! i ! l * h ! l)" by (rule rdot_sum) (rule h)
    with i show "map (\<lambda>row. rdot row h) P ! i * ys ! i = (\<Sum>l<T. P ! i ! l * h ! l) * ys ! i" by simp
  qed
  also have "\<dots> = bil T (\<lambda>i l. P ! i ! l) (\<lambda>i. ys ! i) (\<lambda>l. h ! l)"
    unfolding bil_def by (intro sum.cong refl) (simp add: sum_distrib_left sum_distrib_right mult_ac)
  finally show ?thesis .
qed

lemma gram_nth:
  assumes "i < length x" and "l < length x"
  shows "gram x ! i ! l = 1 + fst (x ! i) * fst (x ! l) + snd (x ! i) * snd (x ! l)"
  using assms by (simp add: gram_def case_prod_beta)

lemma gram_length: "length (gram x) = length x"
  by (simp add: gram_def)

lemma ginv_bil:
  assumes g: "generalised_inverse P (gram x)" and i: "i < length x" and m: "m < length x"
  shows "bil (length x) (\<lambda>l q. P ! l ! q)
           (\<lambda>l. 1 + fst (x ! i) * fst (x ! l) + snd (x ! i) * snd (x ! l))
           (\<lambda>q. 1 + fst (x ! m) * fst (x ! q) + snd (x ! m) * snd (x ! q))
         = 1 + fst (x ! i) * fst (x ! m) + snd (x ! i) * snd (x ! m)"
proof -
  from g i m have "(\<Sum>l<length x. \<Sum>q<length x. gram x ! i ! l * P ! l ! q * gram x ! q ! m) = gram x ! i ! m"
    unfolding generalised_inverse_def gram_length by blast
  then have "bil (length x) (\<lambda>l q. P ! l ! q) (\<lambda>l. gram x ! i ! l) (\<lambda>q. gram x ! q ! m) = gram x ! i ! m"
    by (simp add: bil_def)
  moreover have "bil (length x) (\<lambda>l q. P ! l ! q) (\<lambda>l. gram x ! i ! l) (\<lambda>q. gram x ! q ! m)
      = bil (length x) (\<lambda>l q. P ! l ! q)
           (\<lambda>l. 1 + fst (x ! i) * fst (x ! l) + snd (x ! i) * snd (x ! l))
           (\<lambda>q. 1 + fst (x ! m) * fst (x ! q) + snd (x ! m) * snd (x ! q))"
    by (rule bil_cong) (simp_all add: gram_nth i m mult.commute)
  ultimately show ?thesis by (simp add: gram_nth i m)
qed

lemma fitted_rows_map:
  "fitted_rows (map (\<lambda>j. Fin (f j)) ds) (map g ds) = map (\<lambda>j. (f j, fst (g j), snd (g j))) ds"
  by (induction ds) (simp_all add: fitted_rows_def)

lemma fitted_rows_sinusoid_eq:
  "fitted_rows (sinusoid c a b Date)
      (map (\<lambda>j. (sin (2 * pi * j), cos (2 * pi * j))) (make_decimal_date Date))
     = map (\<lambda>(sn, cs). (c + a * sn + b * cs, sn, cs))
         (map (\<lambda>j. (sin (2 * pi * j), cos (2 * pi * j))) (make_decimal_date Date))"
  unfolding sinusoid_def by (simp add: fitted_rows_map o_def)

lemma full_rank_nth:
  assumes rank: "full_rank (map (\<lambda>(sn, cs). (f sn cs, sn, cs)) x)"
    and z: "\<forall>i<length x. u + v * fst (x ! i) + w * snd (x ! i) = 0"
  shows "u = 0 \<and> v = 0 \<and> w = 0"
proof -
  have "\<forall>(y, s, k) \<in> set (map (\<lambda>(sn, cs). (f sn cs, sn, cs)) x). u + v * s + w * k = 0"
  proof (clarsimp)
    fix sn cs assume "(sn, cs) \<in> set x"
    then obtain i where "i < length x" "x ! i = (sn, cs)" by (auto simp add: in_set_conv_nth)
    with z show "u + v * sn + w * cs = 0" by fastforce
  qed
  with rank show ?thesis unfolding full_rank_def by blast
qed

text \<open>
  Claim C3. For a batch of one segment whose features are the sine and cosine of the
  decimal dates and whose predicted temperatures are exactly
  \<open>c + a sin(2 pi t) + b cos(2 pi t)\<close>, the amplitude \<open>Aw\<close> and the phase \<open>Phiw\<close> of the batched
  regression are the amplitude and the phase that \<open>amp_phi\<close> returns for the same
  series, namely \<open>sqrt (a^2 + b^2)\<close> and \<open>3 pi / 2 - atan (b / a)\<close>. The design has full
  rank, the scalar regression minimises the sum of squared residuals, and the matrix
  \<open>P\<close> that \<open>pinv\<close> returns satisfies \<open>G P G = G\<close>; the arithmetic is exact.
\<close>

theorem batched_regression_agrees_with_estimator:
  fixes Date :: "real list" and c a b :: real
  defines "x \<equiv> map (\<lambda>j. (sin (2 * pi * j), cos (2 * pi * j))) (make_decimal_date Date)"
  assumes rank: "full_rank (fitted_rows (sinusoid c a b Date) x)"
    and ols: "ols (sinusoid c a b Date) x = Some r"
    and ls: "least_squares r (sinusoid c a b Date) x"
    and pinv: "pinv (map (map Fin) (gram x)) = map (map Fin) P"
    and ginv: "generalised_inverse P (gram x)"
  shows "GW_amp_phase pinv [map (\<lambda>(sn, cs). [Fin sn, Fin cs]) x] [map (\<lambda>v. [v]) (sinusoid c a b Date)]
           = Inr ([amp (amp_phi ols Date (sinusoid c a b Date) False)],
                  [phi (amp_phi ols Date (sinusoid c a b Date) False)])
       \<and> amp (amp_phi ols Date (sinusoid c a b Date) False) = Fin (sqrt (a\<^sup>2 + b\<^sup>2))
       \<and> phi (amp_phi ols Date (sinusoid c a b Date) False)
           = fsub (Fin (3 * pi / 2)) (fatan (fdiv (Fin b) (Fin a)))"
proof -
  let ?T = "length x"
  let ?s = "\<lambda>i. fst (x ! i)" and ?k = "\<lambda>i. snd (x ! i)"
  let ?ys = "map (\<lambda>(sn, cs). c + a * sn + b * cs) x"
  let ?P = "\<lambda>l q. P ! l ! q"
  have rows: "fitted_rows (sinusoid c a b Date) x = map (\<lambda>(sn, cs). (c + a * sn + b * cs, sn, cs)) x"
    unfolding x_def by (rule fitted_rows_sinusoid_eq)
  have rank': "u = 0 \<and> v = 0 \<and> w = 0" if "\<forall>i<?T. u + v * ?s i + w * ?k i = 0" for u v w
    using full_rank_nth [OF rank [unfolded rows] that] .
  have ne: "x \<noteq> []"
  proof
    assume "x = []"
    then have "\<forall>i<?T. 1 + 0 * ?s i + 0 * ?k i = 0" by simp
    from rank' [OF this] show False by simp
  qed
  have sin_eq: "sinusoid c a b Date = map Fin ?ys"
    by (simp add: sinusoid_def x_def o_def)
  have ysne: "?ys \<noteq> []" using ne by simp
  have Y: "map (\<lambda>v. [v]) (sinusoid c a b Date) = map (\<lambda>v. [Fin v]) ?ys"
    by (simp add: sin_eq o_def)
  from ginv have Plen: "length P = ?T" and Prow: "\<forall>row \<in> set P. length row = ?T"
    unfolding generalised_inverse_def gram_length by blast+
  with ne have Pne: "P \<noteq> []" by auto
  have mp: "bil ?T ?P (\<lambda>l. 1 + ?s i * ?s l + ?k i * ?k l) (\<lambda>q. 1 + ?s m * ?s q + ?k m * ?k q)
             = 1 + ?s i * ?s m + ?k i * ?k m" if "i < ?T" "m < ?T" for i m
    using ginv_bil [OF ginv that] .
  have y: "?ys ! i = c + a * ?s i + b * ?k i" if "i < ?T" for i
    using that by (simp add: case_prod_beta)
  have A1: "rdot (map (\<lambda>row. rdot row (map fst x)) P) ?ys = a"
  proof -
    have "rdot (map (\<lambda>row. rdot row (map fst x)) P) ?ys
            = bil ?T ?P (\<lambda>i. ?ys ! i) (\<lambda>l. map fst x ! l)"
      by (rule rdot_bil [OF Plen Prow]) simp_all
    also have "\<dots> = bil ?T ?P (\<lambda>i. ?ys ! i) ?s" by (rule bil_cong) simp_all
    also have "\<dots> = a" by (rule ginv_recovers(2) [OF mp rank' y])
    finally show ?thesis .
  qed
  have A2: "rdot (map (\<lambda>row. rdot row (map snd x)) P) ?ys = b"
  proof -
    have "rdot (map (\<lambda>row. rdot row (map snd x)) P) ?ys
            = bil ?T ?P (\<lambda>i. ?ys ! i) (\<lambda>l. map snd x ! l)"
      by (rule rdot_bil [OF Plen Prow]) simp_all
    also have "\<dots> = bil ?T ?P (\<lambda>i. ?ys ! i) ?k" by (rule bil_cong) simp_all
    also have "\<dots> = b" by (rule ginv_recovers(3) [OF mp rank' y])
    finally show ?thesis .
  qed
  have batch: "GW_amp_phase pinv [map (\<lambda>(sn, cs). [Fin sn, Fin cs]) x] [map (\<lambda>v. [v]) (sinusoid c a b Date)]
      = Inr ([fsqrt (fadd (square (Fin a)) (square (Fin b)))],
             [fsub (Fin (3 * pi / 2)) (fatan (fdiv (Fin b) (Fin a)))])"
    unfolding Y using GW_amp_phase_single [of x ?ys pinv P, OF ne ysne pinv Pne] unfolding A1 A2 .
  have exact: "\<forall>(v, s, k) \<in> set (fitted_rows (sinusoid c a b Date) x). v = c + a * s + b * k"
    unfolding x_def using fitted_rows_sinusoid [of _ _ _ c a b Date] by blast
  from least_squares_exact [OF ls exact rank] have p: "params r = (Fin c, Fin a, Fin b)" .
  have S: "ols (if False then map (\<lambda>x. if fge x (Fin 1) \<and> fle x (Fin 45) then x else NaN) (sinusoid c a b Date)
               else sinusoid c a b Date)
             (map (\<lambda>j. (sin (2 * pi * j), cos (2 * pi * j))) (make_decimal_date Date)) = Some r"
    using ols by (simp add: x_def)
  note ap = amp_phi_Some [of ols False "sinusoid c a b Date" Date r "Fin c" "Fin a" "Fin b", OF S p]
  have sq: "fsqrt (fadd (square (Fin a)) (square (Fin b))) = Fin (sqrt (a\<^sup>2 + b\<^sup>2))"
    by (simp add: square_def power2_eq_square)
  from batch ap sq show ?thesis by simp
qed


lemma quarter_design:
  "map (\<lambda>j. (sin (2 * pi * j), cos (2 * pi * j))) (make_decimal_date quarter_dates)
     = [(0, 1), (1, 0), (0, - 1)]"
  by (simp add: quarter_decimal)

lemma quarter_gram: "gram [(0, 1), (1, 0), (0, - 1)] = [[2, 1, 0], [1, 2, 1], [0, 1, 2]]"
  by (simp add: gram_def)

lemma quarter_ginv:
  "generalised_inverse [[3 / 4, - (1 / 2), 1 / 4], [- (1 / 2), 1, - (1 / 2)], [1 / 4, - (1 / 2), 3 / 4]]
     (gram [(0, 1), (1, 0), (0, - 1)])"
  unfolding quarter_gram generalised_inverse_def
  by (auto simp add: numeral_3_eq_3 lessThan_Suc less_Suc_eq)

theorem batched_regression_agrees_with_estimator_witness:
  "GW_amp_phase quarter_pinv [[[Fin 0, Fin 1], [Fin 1, Fin 0], [Fin 0, Fin (- 1)]]]
       [[[Fin 9], [Fin 8], [Fin 1]]]
     = Inr ([amp (amp_phi sinusoid_fit quarter_dates (sinusoid 5 3 4 quarter_dates) False)],
            [phi (amp_phi sinusoid_fit quarter_dates (sinusoid 5 3 4 quarter_dates) False)])
   \<and> amp (amp_phi sinusoid_fit quarter_dates (sinusoid 5 3 4 quarter_dates) False) = Fin 5"
proof -
  let ?r = "\<lparr>params = (Fin 5, Fin 3, Fin 4),
           conf_int = ((Fin 5, Fin 5), (Fin 3, Fin 3), (Fin 4, Fin 4))\<rparr>"
  let ?x = "map (\<lambda>j. (sin (2 * pi * j), cos (2 * pi * j))) (make_decimal_date quarter_dates)"
  let ?P = "[[3 / 4, - (1 / 2), 1 / 4], [- (1 / 2), 1, - (1 / 2)], [1 / 4, - (1 / 2), 3 / 4 :: real]]"
  have S: "sinusoid_fit (sinusoid 5 3 4 quarter_dates) ?x = Some ?r"
    by (simp add: sinusoid_fit_def)
  have ls: "least_squares ?r (sinusoid 5 3 4 quarter_dates) ?x"
    by (rule exact_is_least_squares) simp
  have pv: "quarter_pinv (map (map Fin) (gram ?x)) = map (map Fin) ?P"
    by (simp add: quarter_pinv_def)
  have gi: "generalised_inverse ?P (gram ?x)"
    unfolding quarter_design by (rule quarter_ginv)
  have v: "sinusoid 5 3 4 quarter_dates = [Fin 9, Fin 8, Fin 1]"
    by (simp add: sinusoid_def quarter_decimal)
  have five: "sqrt (3\<^sup>2 + 4\<^sup>2) = (5 :: real)"
    using sqrt_3_4 by (simp add: power2_eq_square)
  from batched_regression_agrees_with_estimator [where c = 5 and a = 3 and b = 4
      and Date = quarter_dates and ols = sinusoid_fit and r = ?r and pinv = quarter_pinv and P = ?P,
      OF quarter_full_rank S ls pv gi]
  show ?thesis unfolding quarter_design five by (simp add: v)
qed


end
